theory Spec2Isabelle
  imports Main
begin

section \<open>Values, closures and the store\<close>

text \<open>
  The binder of \<^verbatim>\<open>binder.ts\<close> works on JavaScript objects that are shared by
  reference: an Observable is reached from a viewmodel, from the closures the binder
  hands to the context and from later callers of \<^verbatim>\<open>set\<close>. Observables therefore
  live in a store indexed by their identity, and every operation passes the world on.
\<close>

type_synonym addr = nat
type_synonym ctx = nat
type_synonym field = string

text \<open>The closure \<^verbatim>\<open>(v: unknown) => observable.set(v)\<close> of line 67, by the observable it captures.\<close>

datatype handler = Setter addr

text \<open>
  Runtime values as far as the binder tells them apart: \<^verbatim>\<open>undefined\<close>, the other
  kinds that \<^verbatim>\<open>typeof\<close> names, a reference to an Observable instance, and a function.
\<close>

datatype val =
    VUndefined
  | VNull
  | VBool bool
  | VNum int
  | VStr string
  | VObject
  | VObs addr
  | VFun handler

text \<open>
  A subscriber is a closure. \<open>PushField c f\<close> is the closure
  \<^verbatim>\<open>value => context.setField(toTarget, value)\<close> of lines 59 and 75, by the context and
  the field it captures; \<open>External n\<close> is any callback registered by other code, which the
  model takes not to touch observables or contexts.
\<close>

datatype subscriber = PushField ctx field | External nat

record observable =
  current :: val
  subscribers :: "subscriber list"

datatype log_entry = Debug string | Warning string

text \<open>
  The world: the store of observables, the calls every context has received through
  \<^verbatim>\<open>setField\<close> (oldest first), the subscriber invocations made so far (oldest first), and
  the lines given to the logger.
\<close>

record world =
  heap :: "addr \<Rightarrow> observable"
  calls :: "(ctx \<times> field \<times> val) list"
  invoked :: "(subscriber \<times> val) list"
  log :: "log_entry list"

datatype error = Error string | TypeError | WidgetAbsent

section \<open>Collaborators that are not part of the source files\<close>

text \<open>
  Modelled from the spec: \<^verbatim>\<open>BindingContext.setField(name, value)\<close>, of which the sources
  import the interface only. The context is opaque to the binder; the model records the
  call and does nothing else (in particular it never calls a handler back).
\<close>

definition setField :: "ctx \<Rightarrow> field \<Rightarrow> val \<Rightarrow> world \<Rightarrow> world" where
  "setField context fieldName v w = w\<lparr>calls := calls w @ [(context, fieldName, v)]\<rparr>"

text \<open>
  Modelled from the spec: \<^verbatim>\<open>Log.debug(message)\<close> of the logger (\<^verbatim>\<open>helpers/logger\<close> is
  imported, its file is not among the sources); advisory only, the line is kept.
\<close>

definition log_debug :: "string \<Rightarrow> world \<Rightarrow> world" where
  "log_debug msg w = w\<lparr>log := log w @ [Debug msg]\<rparr>"

text \<open>Modelled from the spec: \<^verbatim>\<open>Log.warning(message)\<close> of the same logger.\<close>

definition log_warning :: "string \<Rightarrow> world \<Rightarrow> world" where
  "log_warning msg w = w\<lparr>log := log w @ [Warning msg]\<rparr>"

subsection \<open>Observable\<close>

text \<open>
  The class \<^verbatim>\<open>Observable\<close> is imported by the binder from \<^verbatim>\<open>./observable\<close>; its file is
  not among the sources. Its three methods follow the contract of section 4.1 of the
  specification.
\<close>

text \<open>
  Modelled from the spec: \<^verbatim>\<open>Observable.get()\<close>, which returns the current value and has
  no side effect.
\<close>

definition obs_get :: "addr \<Rightarrow> world \<Rightarrow> val" where
  "obs_get a w = current (heap w a)"

text \<open>
  Modelled from the spec: \<^verbatim>\<open>Observable.subscribe(callback)\<close>, which appends the callback to
  the subscriber list and does not call it.
\<close>

definition obs_subscribe :: "addr \<Rightarrow> subscriber \<Rightarrow> world \<Rightarrow> world" where
  "obs_subscribe a s w =
     w\<lparr>heap := (heap w)(a := (heap w a)\<lparr>subscribers := subscribers (heap w a) @ [s]\<rparr>)\<rparr>"

text \<open>
  Calling a subscriber: the call is recorded, then the closure's body runs (for
  \<open>PushField\<close>, the body written at lines 59 and 75 of the binder).
\<close>

fun invoke :: "subscriber \<Rightarrow> val \<Rightarrow> world \<Rightarrow> world" where
  "invoke (PushField context toTarget) v w =
     setField context toTarget v
       (w\<lparr>invoked := invoked w @ [(PushField context toTarget, v)]\<rparr>)"
| "invoke (External n) v w = w\<lparr>invoked := invoked w @ [(External n, v)]\<rparr>"

text \<open>
  Modelled from the spec: the loop of \<^verbatim>\<open>Observable.set\<close> over the subscribers, in
  subscription order.
\<close>

fun notify :: "subscriber list \<Rightarrow> val \<Rightarrow> world \<Rightarrow> world" where
  "notify [] v w = w"
| "notify (s # ss) v w = notify ss v (invoke s v w)"

text \<open>
  Modelled from the spec: \<^verbatim>\<open>Observable.set(value)\<close>, which stores the value unconditionally
  (there is no comparison with the old one) and then calls every subscriber with it.
\<close>

definition obs_set :: "addr \<Rightarrow> val \<Rightarrow> world \<Rightarrow> world" where
  "obs_set a v w =
     (let w' = w\<lparr>heap := (heap w)(a := (heap w a)\<lparr>current := v\<rparr>)\<rparr>
      in notify (subscribers (heap w' a)) v w')"

section \<open>The binder\<close>

text \<open>
  A viewmodel is an object read by property name: \<^verbatim>\<open>viewmodel[bindSource]\<close> is
  \<^verbatim>\<open>undefined\<close> for a name the object does not have.
\<close>

type_synonym viewmodel = "string \<rightharpoonup> val"

definition property :: "viewmodel \<Rightarrow> string \<Rightarrow> val" where
  "property viewmodel key = (case viewmodel key of None \<Rightarrow> VUndefined | Some v \<Rightarrow> v)"

text \<open>
  A binding descriptor as the code inspects it at run time: a string (\<^verbatim>\<open>ToTarget\<close>), an
  object with some keys naming view fields (\<^verbatim>\<open>ToSource\<close> has \<^verbatim>\<open>update\<close>, \<^verbatim>\<open>TwoWay\<close> has
  \<^verbatim>\<open>bind\<close> and \<^verbatim>\<open>update\<close>; the code tests the keys with \<^verbatim>\<open>in\<close>, so any key set is a
  possible input), or a value that is neither (\<^verbatim>\<open>undefined\<close>, which \<^verbatim>\<open>Partial\<close> admits):
  on that one the \<^verbatim>\<open>in\<close> operator of line 63 raises a TypeError.
\<close>

datatype descriptor =
    DString field
  | DObject "string \<rightharpoonup> field"
  | DPrimitive

text \<open>
  The bindings object, its keys in the order \<^verbatim>\<open>for (... in bindings)\<close> enumerates them.
\<close>

type_synonym bindings = "(string \<times> descriptor) list"

definition descriptor_at :: "bindings \<Rightarrow> string \<Rightarrow> descriptor" where
  "descriptor_at bindings bindSource =
     (case map_of bindings bindSource of None \<Rightarrow> DPrimitive | Some d \<Rightarrow> d)"

fun typeof :: "val \<Rightarrow> string" where
  "typeof VUndefined = ''undefined''"
| "typeof VNull = ''object''"
| "typeof (VBool b) = ''boolean''"
| "typeof (VNum n) = ''number''"
| "typeof (VStr s) = ''string''"
| "typeof VObject = ''object''"
| "typeof (VObs a) = ''object''"
| "typeof (VFun h) = ''function''"

definition quoted :: "string \<Rightarrow> string" where
  "quoted s = CHR 0x27 # s @ [CHR 0x27]"

text \<open>\<^verbatim>\<open>applyBinding\<close>, lines 40 to 85: the result is the boolean it returns and the world it leaves.\<close>

definition applyBinding ::
  "ctx \<Rightarrow> viewmodel \<Rightarrow> bindings \<Rightarrow> string \<Rightarrow> world \<Rightarrow> error + (bool \<times> world)" where
  "applyBinding context viewmodel bindings bindSource w =
     (case property viewmodel bindSource of
        VUndefined \<Rightarrow> Inr (False, w)
      | VObs observable \<Rightarrow>
          (case descriptor_at bindings bindSource of
             DString toTarget \<Rightarrow>
               (let w1 = setField context toTarget (obs_get observable w) w;
                    w2 = obs_subscribe observable (PushField context toTarget) w1
                in Inr (True,
                     log_debug (''Binding created: '' @ quoted bindSource @ '' -> ''
                                @ quoted toTarget) w2))
           | DObject binding \<Rightarrow>
               (case binding ''update'' of
                  None \<Rightarrow> Inr (True, w)
                | Some update \<Rightarrow>
                    (let w1 = setField context update (VFun (Setter observable)) w
                     in case binding ''bind'' of
                          Some toTarget \<Rightarrow>
                            (let w2 = setField context toTarget (obs_get observable w1) w1;
                                 w3 = obs_subscribe observable (PushField context toTarget) w2
                             in Inr (True,
                                  log_debug (''Binding created: '' @ quoted bindSource
                                             @ '' <-> '' @ quoted (toTarget @ '':'' @ update)) w3))
                        | None \<Rightarrow>
                            Inr (True,
                              log_debug (''Binding created: '' @ quoted bindSource
                                         @ '' <- '' @ quoted update) w1)))
           | DPrimitive \<Rightarrow> Inl TypeError)
      | other \<Rightarrow>
          Inr (False,
            log_debug (''Binding failed: Observable is not an observable, but of type ''
                       @ quoted (typeof other)) w))"

text \<open>\<^verbatim>\<open>Binder.apply\<close>, lines 100 to 109: the loop over the keys, then the entry point.\<close>

fun apply_keys :: "ctx \<Rightarrow> viewmodel \<Rightarrow> bindings \<Rightarrow> string list \<Rightarrow> world \<Rightarrow> error + world" where
  "apply_keys context viewmodel bindings [] w = Inr w"
| "apply_keys context viewmodel bindings (bindSource # rest) w =
     (case applyBinding context viewmodel bindings bindSource w of
        Inl e \<Rightarrow> Inl e
      | Inr (ok, w') \<Rightarrow>
          apply_keys context viewmodel bindings rest
            (if \<not> ok
             then log_warning (''Could not find observable property on viewmodel for ''
                               @ quoted bindSource) w'
             else w'))"

definition Binder_apply :: "ctx \<Rightarrow> viewmodel \<Rightarrow> bindings \<Rightarrow> world \<Rightarrow> error + world" where
  "Binder_apply context viewmodel bindings w =
     apply_keys context viewmodel bindings (map fst bindings) w"

text \<open>
  \<^verbatim>\<open>Binder.applyAll\<close>, lines 119 to 134: the inner loop over the viewmodels carries
  \<^verbatim>\<open>success\<close>; \<^verbatim>\<open>applyBinding(...) || success\<close> runs the call before it looks at the flag.
\<close>

fun applyAll_viewmodels ::
  "ctx \<Rightarrow> viewmodel list \<Rightarrow> bindings \<Rightarrow> string \<Rightarrow> bool \<Rightarrow> world \<Rightarrow> error + (bool \<times> world)" where
  "applyAll_viewmodels context [] bindings bindSource success w = Inr (success, w)"
| "applyAll_viewmodels context (vm # vms) bindings bindSource success w =
     (case applyBinding context vm bindings bindSource w of
        Inl e \<Rightarrow> Inl e
      | Inr (ok, w') \<Rightarrow> applyAll_viewmodels context vms bindings bindSource (ok \<or> success) w')"

fun applyAll_keys ::
  "ctx \<Rightarrow> viewmodel list \<Rightarrow> bindings \<Rightarrow> string list \<Rightarrow> world \<Rightarrow> error + world" where
  "applyAll_keys context viewmodels bindings [] w = Inr w"
| "applyAll_keys context viewmodels bindings (bindSource # rest) w =
     (case applyAll_viewmodels context viewmodels bindings bindSource False w of
        Inl e \<Rightarrow> Inl e
      | Inr (success, w') \<Rightarrow>
          applyAll_keys context viewmodels bindings rest
            (if \<not> success
             then log_warning (''Could not find observable property on any viewmodels for ''
                               @ quoted bindSource) w'
             else w'))"

definition Binder_applyAll :: "ctx \<Rightarrow> viewmodel list \<Rightarrow> bindings \<Rightarrow> world \<Rightarrow> error + world" where
  "Binder_applyAll context viewmodels bindings w =
     applyAll_keys context viewmodels bindings (map fst bindings) w"

text \<open>
  What the context is expected to do with a handler it was given for an \<^verbatim>\<open>update\<close> field:
  call it with the value the view produced. Any other value is not callable.
\<close>

fun call_handler :: "val \<Rightarrow> val \<Rightarrow> world \<Rightarrow> error + world" where
  "call_handler (VFun (Setter observable)) v w = Inr (obs_set observable v w)"
| "call_handler other v w = Inl TypeError"

section \<open>Component\<close>

text \<open>
  \<^verbatim>\<open>component.ts\<close>. The window and its widgets belong to the host; the component keeps a
  reference to the window, and \<^verbatim>\<open>findWidget\<close> hands out a reference to a widget of the
  host, which \<^verbatim>\<open>active\<close> then writes to. Windows are therefore kept in a store of their
  own, by identity, each one a table of widgets by name, and a widget reference is the
  window's identity with the widget's name.
\<close>

text \<open>
  Modelled from the spec: the host's \<^verbatim>\<open>Widget\<close>, of which the component writes
  \<^verbatim>\<open>isDisabled\<close>; whatever else a widget holds is the record's extension.
\<close>

record widget =
  isDisabled :: bool

type_synonym 'a hostWindows = "nat \<Rightarrow> (string \<rightharpoonup> 'a widget_scheme)"
type_synonym widgetRef = "nat \<times> string"

record widgetDesc =
  name :: string

record component =
  window :: "nat option"
  description :: widgetDesc

text \<open>The constructor of lines 13 to 16, with the initialiser of line 9.\<close>

definition Component_new :: "widgetDesc \<Rightarrow> component" where
  "Component_new d = \<lparr>window = None, description = d\<rparr>"

text \<open>
  Modelled from the spec: \<^verbatim>\<open>Window.findWidget(name)\<close> of the host, declared outside the
  sources; section 6 of the specification has it fail if the widget is absent.
\<close>

definition findWidget :: "'a hostWindows \<Rightarrow> nat \<Rightarrow> string \<Rightarrow> error + widgetRef" where
  "findWidget host win widgetName =
     (case host win widgetName of None \<Rightarrow> Inl WidgetAbsent | Some wd \<Rightarrow> Inr (win, widgetName))"

definition getWidget :: "component \<Rightarrow> 'a hostWindows \<Rightarrow> error + widgetRef" where
  "getWidget this host =
     (case window this of
        None \<Rightarrow> Inl (Error ''The window is gone.'')
      | Some win \<Rightarrow> findWidget host win (name (description this)))"

text \<open>Writing through a widget reference.\<close>

definition update_widget ::
  "widgetRef \<Rightarrow> ('a widget_scheme \<Rightarrow> 'a widget_scheme) \<Rightarrow> 'a hostWindows \<Rightarrow> 'a hostWindows" where
  "update_widget r f host =
     (case host (fst r) (snd r) of
        None \<Rightarrow> host
      | Some wd \<Rightarrow> host(fst r := (host (fst r))(snd r \<mapsto> f wd)))"

text \<open>
  The abstract \<^verbatim>\<open>refreshWidget\<close> of line 55 is the first argument of every operation: the
  subclass's update of the widget it is given.
\<close>

definition refresh ::
  "('a widget_scheme \<Rightarrow> 'a widget_scheme) \<Rightarrow> component \<Rightarrow> 'a hostWindows
     \<Rightarrow> error + (component \<times> 'a hostWindows)" where
  "refresh refreshWidget this host =
     (case getWidget this host of
        Inl e \<Rightarrow> Inl e
      | Inr widget \<Rightarrow> Inr (this, update_widget widget refreshWidget host))"

definition bind ::
  "('a widget_scheme \<Rightarrow> 'a widget_scheme) \<Rightarrow> nat \<Rightarrow> component \<Rightarrow> 'a hostWindows
     \<Rightarrow> error + (component \<times> 'a hostWindows)" where
  "bind refreshWidget win this host = refresh refreshWidget (this\<lparr>window := Some win\<rparr>) host"

definition active ::
  "('a widget_scheme \<Rightarrow> 'a widget_scheme) \<Rightarrow> bool \<Rightarrow> component \<Rightarrow> 'a hostWindows
     \<Rightarrow> error + (component \<times> 'a hostWindows)" where
  "active refreshWidget toggle this host =
     (case getWidget this host of
        Inl e \<Rightarrow> Inl e
      | Inr widget \<Rightarrow>
          (let host1 = update_widget widget (\<lambda>wd. wd\<lparr>isDisabled := \<not> toggle\<rparr>) host
           in Inr (this, update_widget widget refreshWidget host1)))"

section \<open>Vocabulary of the statements\<close>

text \<open>\<^verbatim>\<open>instanceof Observable\<close>.\<close>

fun is_Observable :: "val \<Rightarrow> bool" where
  "is_Observable (VObs a) = True"
| "is_Observable other = False"

text \<open>The \<^verbatim>\<open>setField\<close> calls that running a list of subscribers with \<open>v\<close> makes.\<close>

fun push_calls :: "subscriber list \<Rightarrow> val \<Rightarrow> (ctx \<times> field \<times> val) list" where
  "push_calls [] v = []"
| "push_calls (PushField context toTarget # ss) v = (context, toTarget, v) # push_calls ss v"
| "push_calls (External n # ss) v = push_calls ss v"

text \<open>The \<^verbatim>\<open>setField\<close> calls that \<^verbatim>\<open>set(v)\<close> on the observable \<open>a\<close> makes in the world \<open>w\<close>.\<close>

definition set_calls :: "addr \<Rightarrow> val \<Rightarrow> world \<Rightarrow> (ctx \<times> field \<times> val) list" where
  "set_calls a v w = drop (length (calls w)) (calls (obs_set a v w))"

text \<open>A run of later \<^verbatim>\<open>set\<close> calls, each on some observable with some value.\<close>

fun run_sets :: "(addr \<times> val) list \<Rightarrow> world \<Rightarrow> world" where
  "run_sets [] w = w"
| "run_sets ((b, v) # later) w = run_sets later (obs_set b v w)"

text \<open>The view field a descriptor displays the value in, if it has one.\<close>

fun target_of :: "descriptor \<Rightarrow> field option" where
  "target_of (DString toTarget) = Some toTarget"
| "target_of (DObject binding) =
     (case binding ''update'' of None \<Rightarrow> None | Some update \<Rightarrow> binding ''bind'')"
| "target_of DPrimitive = None"

text \<open>The warnings among the lines of the log.\<close>

fun warnings :: "log_entry list \<Rightarrow> string list" where
  "warnings [] = []"
| "warnings (Warning msg # es) = msg # warnings es"
| "warnings (Debug msg # es) = warnings es"

text \<open>
  The subscriber that \<^verbatim>\<open>applyBinding\<close> for the key \<open>k\<close> appends to the observable \<open>b\<close>, if any.
\<close>

definition new_subscribers :: "ctx \<Rightarrow> viewmodel \<Rightarrow> bindings \<Rightarrow> string \<Rightarrow> addr \<Rightarrow> subscriber list" where
  "new_subscribers c vm bs k b =
     (if property vm k = VObs b
      then (case target_of (descriptor_at bs k) of Some f \<Rightarrow> [PushField c f] | None \<Rightarrow> [])
      else [])"

text \<open>
  The \<^verbatim>\<open>setField\<close> calls that \<^verbatim>\<open>applyBinding\<close> for the key \<open>k\<close> on the viewmodel \<open>vm\<close>
  makes in the world \<open>w\<close>, if it returns.
\<close>

definition new_calls :: "ctx \<Rightarrow> viewmodel \<Rightarrow> bindings \<Rightarrow> string \<Rightarrow> world \<Rightarrow> (ctx \<times> field \<times> val) list" where
  "new_calls c vm bs k w =
     (case property vm k of
        VObs a \<Rightarrow>
          (case descriptor_at bs k of
             DString f \<Rightarrow> [(c, f, obs_get a w)]
           | DObject obj \<Rightarrow>
               (case obj ''update'' of
                  None \<Rightarrow> []
                | Some u \<Rightarrow>
                    (c, u, VFun (Setter a))
                      # (case obj ''bind'' of None \<Rightarrow> [] | Some t \<Rightarrow> [(c, t, obs_get a w)]))
           | DPrimitive \<Rightarrow> [])
      | other \<Rightarrow> [])"

text \<open>The key resolves to an Observable on at least one of the viewmodels.\<close>

definition resolves_on :: "viewmodel list \<Rightarrow> string \<Rightarrow> bool" where
  "resolves_on vms k = list_ex (\<lambda>vm. is_Observable (property vm k)) vms"

text \<open>Two worlds that differ in the log at most.\<close>

definition same_effects :: "world \<Rightarrow> world \<Rightarrow> bool" where
  "same_effects w w2 = (heap w = heap w2 \<and> calls w = calls w2 \<and> invoked w = invoked w2)"

text \<open>Two keys of one viewmodel, on two observables, displayed in the same view field.\<close>

definition shared_viewmodel :: viewmodel where
  "shared_viewmodel = [''first'' \<mapsto> VObs 0, ''second'' \<mapsto> VObs 1]"

definition shared_bindings :: bindings where
  "shared_bindings = [(''first'', DString ''label''), (''second'', DString ''label'')]"

text \<open>One key with a two-way descriptor: displayed in \<open>a\<close>, edited through \<open>b\<close>.\<close>

definition two_way_viewmodel :: viewmodel where
  "two_way_viewmodel = [''count'' \<mapsto> VObs 0]"

definition two_way_bindings :: bindings where
  "two_way_bindings = [(''count'', DObject [''bind'' \<mapsto> ''a'', ''update'' \<mapsto> ''b''])]"

text \<open>A world in which nothing has happened yet: every observable holds \<open>v0\<close>.\<close>

definition fresh_world :: "val \<Rightarrow> world" where
  "fresh_world v0 =
     \<lparr>heap = (\<lambda>a. \<lparr>current = v0, subscribers = []\<rparr>), calls = [], invoked = [], log = []\<rparr>"

section \<open>Observable: properties\<close>

lemma invoke_heap [simp]: "heap (invoke s v w) = heap w"
  by (cases s) (simp_all add: setField_def)

lemma invoke_log [simp]: "log (invoke s v w) = log w"
  by (cases s) (simp_all add: setField_def)

lemma invoke_invoked [simp]: "invoked (invoke s v w) = invoked w @ [(s, v)]"
  by (cases s) (simp_all add: setField_def)

lemma notify_heap [simp]: "heap (notify ss v w) = heap w"
  by (induction ss arbitrary: w) simp_all

lemma notify_log [simp]: "log (notify ss v w) = log w"
  by (induction ss arbitrary: w) simp_all

lemma notify_invoked [simp]: "invoked (notify ss v w) = invoked w @ map (\<lambda>s. (s, v)) ss"
  by (induction ss arbitrary: w) simp_all

text \<open>
  C7. After \<open>set(v)\<close> on any observable, \<open>get()\<close> returns \<open>v\<close>, and the subscriber calls
  made by the \<open>set\<close> are exactly one call with \<open>v\<close> for each subscriber registered before
  it, in registration order. Nothing is assumed of \<open>v\<close>: the old value may be \<open>v\<close> too.
\<close>

theorem observable_set_get_notify:
  "obs_get a (obs_set a v w) = v \<and>
   invoked (obs_set a v w) = invoked w @ map (\<lambda>s. (s, v)) (subscribers (heap w a))"
  by (simp add: obs_set_def obs_get_def Let_def)

section \<open>The binder: properties\<close>

lemma setField_simps [simp]:
  "heap (setField c f v w) = heap w"
  "calls (setField c f v w) = calls w @ [(c, f, v)]"
  "invoked (setField c f v w) = invoked w"
  "log (setField c f v w) = log w"
  by (simp_all add: setField_def)

lemma log_debug_simps [simp]:
  "heap (log_debug m w) = heap w"
  "calls (log_debug m w) = calls w"
  "invoked (log_debug m w) = invoked w"
  "log (log_debug m w) = log w @ [Debug m]"
  by (simp_all add: log_debug_def)

lemma log_warning_simps [simp]:
  "heap (log_warning m w) = heap w"
  "calls (log_warning m w) = calls w"
  "invoked (log_warning m w) = invoked w"
  "log (log_warning m w) = log w @ [Warning m]"
  by (simp_all add: log_warning_def)

lemma obs_subscribe_simps [simp]:
  "heap (obs_subscribe a s w) = (heap w)(a := (heap w a)\<lparr>subscribers := subscribers (heap w a) @ [s]\<rparr>)"
  "calls (obs_subscribe a s w) = calls w"
  "invoked (obs_subscribe a s w) = invoked w"
  "log (obs_subscribe a s w) = log w"
  by (simp_all add: obs_subscribe_def)

lemma obs_get_frame [simp]:
  "obs_get a (setField c f v w) = obs_get a w"
  "obs_get a (log_debug m w) = obs_get a w"
  "obs_get a (log_warning m w) = obs_get a w"
  "obs_get a (obs_subscribe b s w) = obs_get a w"
  by (simp_all add: obs_get_def)

lemma invoke_calls [simp]: "calls (invoke s v w) = calls w @ push_calls [s] v"
  by (cases s) simp_all

lemma push_calls_append [simp]: "push_calls (xs @ ys) v = push_calls xs v @ push_calls ys v"
  by (induction xs v rule: push_calls.induct) simp_all

lemma notify_calls [simp]: "calls (notify ss v w) = calls w @ push_calls ss v"
proof (induction ss arbitrary: w)
  case Nil
  show ?case by simp
next
  case (Cons s ss)
  have "push_calls (s # ss) v = push_calls [s] v @ push_calls ss v"
    using push_calls_append [of "[s]" ss v] by simp
  with Cons show ?case by simp
qed

lemma obs_set_heap [simp]:
  "heap (obs_set a v w) = (heap w)(a := (heap w a)\<lparr>current := v\<rparr>)"
  by (simp add: obs_set_def Let_def)

lemma obs_set_calls [simp]:
  "calls (obs_set a v w) = calls w @ push_calls (subscribers (heap w a)) v"
  by (simp add: obs_set_def Let_def)

lemma obs_set_log [simp]: "log (obs_set a v w) = log w"
  by (simp add: obs_set_def Let_def)

lemma set_calls_eq: "set_calls a v w = push_calls (subscribers (heap w a)) v"
  by (simp add: set_calls_def)

lemma in_push_calls: "(c, f, x) \<in> set (push_calls ss v) \<longleftrightarrow> x = v \<and> PushField c f \<in> set ss"
  by (induction ss v rule: push_calls.induct) auto

lemma warnings_append [simp]: "warnings (xs @ ys) = warnings xs @ warnings ys"
  by (induction xs rule: warnings.induct) simp_all

text \<open>applyBinding by cases\<close>

lemma applyBinding_unresolved:
  "\<not> is_Observable (property vm k) \<Longrightarrow>
   applyBinding c vm bs k w =
     Inr (False,
       if property vm k = VUndefined then w
       else log_debug (''Binding failed: Observable is not an observable, but of type ''
                       @ quoted (typeof (property vm k))) w)"
  by (cases "property vm k") (simp_all add: applyBinding_def)

lemma applyBinding_to_target:
  "property vm k = VObs a \<Longrightarrow> descriptor_at bs k = DString f \<Longrightarrow>
   applyBinding c vm bs k w =
     Inr (True,
       log_debug (''Binding created: '' @ quoted k @ '' -> '' @ quoted f)
         (obs_subscribe a (PushField c f) (setField c f (obs_get a w) w)))"
  by (simp add: applyBinding_def Let_def)

lemma applyBinding_no_update:
  "property vm k = VObs a \<Longrightarrow> descriptor_at bs k = DObject obj \<Longrightarrow> obj ''update'' = None \<Longrightarrow>
   applyBinding c vm bs k w = Inr (True, w)"
  by (simp add: applyBinding_def Let_def)

lemma applyBinding_to_source:
  "property vm k = VObs a \<Longrightarrow> descriptor_at bs k = DObject obj \<Longrightarrow> obj ''update'' = Some u \<Longrightarrow>
   obj ''bind'' = None \<Longrightarrow>
   applyBinding c vm bs k w =
     Inr (True,
       log_debug (''Binding created: '' @ quoted k @ '' <- '' @ quoted u)
         (setField c u (VFun (Setter a)) w))"
  by (simp add: applyBinding_def Let_def)

lemma applyBinding_two_way:
  "property vm k = VObs a \<Longrightarrow> descriptor_at bs k = DObject obj \<Longrightarrow> obj ''update'' = Some u \<Longrightarrow>
   obj ''bind'' = Some t \<Longrightarrow>
   applyBinding c vm bs k w =
     Inr (True,
       log_debug (''Binding created: '' @ quoted k @ '' <-> '' @ quoted (t @ '':'' @ u))
         (obs_subscribe a (PushField c t)
           (setField c t (obs_get a w) (setField c u (VFun (Setter a)) w))))"
  by (simp add: applyBinding_def Let_def)

lemma applyBinding_primitive:
  "property vm k = VObs a \<Longrightarrow> descriptor_at bs k = DPrimitive \<Longrightarrow>
   applyBinding c vm bs k w = Inl TypeError"
  by (simp add: applyBinding_def)


lemma apply_keys_append:
  "apply_keys c vm bs (xs @ ys) w =
     (case apply_keys c vm bs xs w of Inl e \<Rightarrow> Inl e | Inr w1 \<Rightarrow> apply_keys c vm bs ys w1)"
  by (induction xs arbitrary: w) (simp_all split: sum.splits prod.splits)

lemma applyBinding_subscribers:
  assumes "applyBinding c vm bs k w = Inr (ok, w1)"
  shows "subscribers (heap w1 b) = subscribers (heap w b) @ new_subscribers c vm bs k b"
proof (cases "property vm k")
  case (VObs a)
  show ?thesis
  proof (cases "descriptor_at bs k")
    case (DString f)
    with VObs assms show ?thesis
      by (auto simp: applyBinding_to_target new_subscribers_def)
  next
    case (DObject obj)
    show ?thesis
    proof (cases "obj ''update''")
      case None
      with VObs DObject assms show ?thesis
        by (auto simp: applyBinding_no_update new_subscribers_def)
    next
      case (Some u)
      show ?thesis
      proof (cases "obj ''bind''")
        case None
        with VObs DObject Some assms show ?thesis
          by (auto simp: applyBinding_to_source new_subscribers_def)
      next
        case (Some t)
        with VObs DObject \<open>obj ''update'' = Some u\<close> assms show ?thesis
          by (auto simp: applyBinding_two_way new_subscribers_def)
      qed
    qed
  next
    case DPrimitive
    with VObs assms show ?thesis by (simp add: applyBinding_primitive)
  qed
qed (use assms in \<open>auto simp: applyBinding_unresolved new_subscribers_def\<close>)

lemma applyBinding_warnings:
  assumes "applyBinding c vm bs k w = Inr (ok, w1)"
  shows "warnings (log w1) = warnings (log w)"
  using assms
  by (cases "property vm k")
     (auto simp: applyBinding_def Let_def split: descriptor.splits option.splits)

lemma applyBinding_current:
  assumes "applyBinding c vm bs k w = Inr (ok, w1)"
  shows "current (heap w1 b) = current (heap w b)"
  using assms
  by (cases "property vm k")
     (auto simp: applyBinding_def Let_def split: descriptor.splits option.splits)

lemma apply_keys_subscribers:
  "apply_keys c vm bs ks w = Inr w' \<Longrightarrow>
   subscribers (heap w' b) = subscribers (heap w b) @ concat (map (\<lambda>k. new_subscribers c vm bs k b) ks)"
proof (induction ks arbitrary: w)
  case Nil
  then show ?case by simp
next
  case (Cons k ks)
  from Cons.prems obtain ok w1 where
    step: "applyBinding c vm bs k w = Inr (ok, w1)" and
    rest: "apply_keys c vm bs ks
             (if \<not> ok then log_warning (''Could not find observable property on viewmodel for '' @ quoted k) w1
              else w1) = Inr w'"
    by (auto split: sum.splits)
  from Cons.IH [OF rest] applyBinding_subscribers [OF step, of b]
  show ?case by (simp split: if_splits)
qed


lemma run_sets_subscribers [simp]:
  "subscribers (heap (run_sets later w) a) = subscribers (heap w a)"
  by (induction later w rule: run_sets.induct) simp_all

lemma Binder_apply_split:
  assumes "map fst bs = pre @ k # post" and "apply_keys c vm bs pre w = Inr w0"
  shows "Binder_apply c vm bs w = apply_keys c vm bs (k # post) w0"
  using assms by (simp add: Binder_apply_def apply_keys_append)

lemma Binder_apply_subscribed:
  assumes "Binder_apply c vm bs w = Inr w'" and "k \<in> set (map fst bs)"
    and "property vm k = VObs a" and "target_of (descriptor_at bs k) = Some f"
  shows "PushField c f \<in> set (subscribers (heap w' a))"
proof -
  have "PushField c f \<in> set (new_subscribers c vm bs k a)"
    using assms(3,4) by (simp add: new_subscribers_def)
  with assms(2) have "PushField c f \<in> set (concat (map (\<lambda>k. new_subscribers c vm bs k a) (map fst bs)))"
    by auto
  with apply_keys_subscribers [of c vm bs "map fst bs" w w' a] assms(1)
  show ?thesis by (simp add: Binder_apply_def)
qed

text \<open>
  C1. A key \<open>K\<close> with a string descriptor \<open>F\<close> whose viewmodel property is an Observable
  \<open>a\<close>: when the loop of \<^verbatim>\<open>Binder.apply\<close> reaches \<open>K\<close> (in the world \<open>w0\<close> left by the
  earlier keys), it makes exactly one \<^verbatim>\<open>setField\<close> call, of \<open>a\<close>'s current value to \<open>F\<close>,
  appends one subscriber to \<open>a\<close> and goes on with the later keys; and once
  \<^verbatim>\<open>Binder.apply\<close> has returned, every \<^verbatim>\<open>set(v)\<close> on \<open>a\<close>, also after any run of other
  \<^verbatim>\<open>set\<close> calls, calls \<^verbatim>\<open>setField(F, v)\<close> on that context.
\<close>

theorem to_target_push_and_subscribe:
  assumes "map fst bindings = pre @ K # post"
    and "descriptor_at bindings K = DString F"
    and "property viewmodel K = VObs a"
    and "apply_keys context viewmodel bindings pre w = Inr w0"
  shows "\<exists>w1. Binder_apply context viewmodel bindings w
                 = apply_keys context viewmodel bindings post w1
           \<and> calls w1 = calls w0 @ [(context, F, obs_get a w0)]
           \<and> subscribers (heap w1 a) = subscribers (heap w0 a) @ [PushField context F]
           \<and> (\<forall>w' later v. Binder_apply context viewmodel bindings w = Inr w'
                 \<longrightarrow> (context, F, v) \<in> set (set_calls a v (run_sets later w')))"
proof -
  let ?w1 = "log_debug (''Binding created: '' @ quoted K @ '' -> '' @ quoted F)
               (obs_subscribe a (PushField context F) (setField context F (obs_get a w0) w0))"
  have step: "applyBinding context viewmodel bindings K w0 = Inr (True, ?w1)"
    by (rule applyBinding_to_target [OF assms(3) assms(2)])
  have "Binder_apply context viewmodel bindings w = apply_keys context viewmodel bindings post ?w1"
    using Binder_apply_split [OF assms(1) assms(4)] step by simp
  moreover have "calls ?w1 = calls w0 @ [(context, F, obs_get a w0)]" by simp
  moreover have "subscribers (heap ?w1 a) = subscribers (heap w0 a) @ [PushField context F]"
    by simp
  moreover have "(context, F, v) \<in> set (set_calls a v (run_sets later w'))"
    if "Binder_apply context viewmodel bindings w = Inr w'" for w' later v
  proof -
    have "K \<in> set (map fst bindings)" using assms(1) by simp
    from Binder_apply_subscribed [OF that this assms(3)] assms(2)
    have "PushField context F \<in> set (subscribers (heap w' a))" by simp
    then show ?thesis by (simp add: set_calls_eq in_push_calls)
  qed
  ultimately show ?thesis by blast
qed

theorem to_target_push_and_subscribe_witness:
  "map fst [(''count'', DString ''label'')] = [] @ ''count'' # []
   \<and> descriptor_at [(''count'', DString ''label'')] ''count'' = DString ''label''
   \<and> property [''count'' \<mapsto> VObs 0] ''count'' = VObs 0
   \<and> apply_keys 0 [''count'' \<mapsto> VObs 0] [(''count'', DString ''label'')] []
        (fresh_world (VNum 0)) = Inr (fresh_world (VNum 0))
   \<and> (\<exists>w1. Binder_apply 0 [''count'' \<mapsto> VObs 0] [(''count'', DString ''label'')]
               (fresh_world (VNum 0)) = Inr w1
          \<and> calls w1 = [(0, ''label'', VNum 0)]
          \<and> (0, ''label'', VNum 3) \<in> set (set_calls 0 (VNum 3) w1))"
proof -
  have h1: "map fst [(''count'', DString ''label'')] = [] @ ''count'' # []" by simp
  have h2: "descriptor_at [(''count'', DString ''label'')] ''count'' = DString ''label''"
    by (simp add: descriptor_at_def)
  have h3: "property [''count'' \<mapsto> VObs 0] ''count'' = VObs 0" by (simp add: property_def)
  have h4: "apply_keys 0 [''count'' \<mapsto> VObs 0] [(''count'', DString ''label'')] []
        (fresh_world (VNum 0)) = Inr (fresh_world (VNum 0))" by simp
  from to_target_push_and_subscribe [OF h1 h2 h3 h4]
  obtain w1 where
    a: "Binder_apply 0 [''count'' \<mapsto> VObs 0] [(''count'', DString ''label'')]
          (fresh_world (VNum 0)) = apply_keys 0 [''count'' \<mapsto> VObs 0] [(''count'', DString ''label'')] [] w1"
    and b: "calls w1 = calls (fresh_world (VNum 0)) @ [(0, ''label'', obs_get 0 (fresh_world (VNum 0)))]"
    and c: "\<forall>w' later v. Binder_apply 0 [''count'' \<mapsto> VObs 0] [(''count'', DString ''label'')]
          (fresh_world (VNum 0)) = Inr w' \<longrightarrow> (0, ''label'', v) \<in> set (set_calls 0 v (run_sets later w'))"
    by blast
  from a have a': "Binder_apply 0 [''count'' \<mapsto> VObs 0] [(''count'', DString ''label'')]
          (fresh_world (VNum 0)) = Inr w1" by simp
  from c a' have "(0, ''label'', VNum 3) \<in> set (set_calls 0 (VNum 3) (run_sets [] w1))" by blast
  then have c': "(0, ''label'', VNum 3) \<in> set (set_calls 0 (VNum 3) w1)" by simp
  from b have b': "calls w1 = [(0, ''label'', VNum 0)]" by (simp add: fresh_world_def obs_get_def)
  from h1 h2 h3 h4 a' b' c' show ?thesis by blast
qed


lemma same_effects_refl [simp]: "same_effects w w"
  by (simp add: same_effects_def)

lemma same_effects_log [simp]:
  "same_effects (log_warning m w) w2 = same_effects w w2"
  "same_effects (log_debug m w) w2 = same_effects w w2"
  "same_effects w (log_warning m w2) = same_effects w w2"
  "same_effects w (log_debug m w2) = same_effects w w2"
  by (simp_all add: same_effects_def)

lemma applyBinding_same_effects:
  assumes "same_effects w w2"
  shows "rel_sum (=) (rel_prod (=) same_effects)
           (applyBinding c vm bs k w) (applyBinding c vm bs k w2)"
  using assms
  by (cases "property vm k")
     (auto simp: applyBinding_def Let_def same_effects_def obs_get_def
           split: descriptor.splits option.splits)

lemma apply_keys_same_effects:
  assumes "same_effects w w2"
  shows "rel_sum (=) same_effects (apply_keys c vm bs ks w) (apply_keys c vm bs ks w2)"
  using assms
proof (induction ks arbitrary: w w2)
  case Nil
  then show ?case by simp
next
  case (Cons k ks)
  note R = applyBinding_same_effects [OF Cons.prems, of c vm bs k]
  show ?case
  proof (cases "applyBinding c vm bs k w")
    case (Inl e)
    with R have "applyBinding c vm bs k w2 = Inl e"
      by (cases "applyBinding c vm bs k w2") simp_all
    with Inl show ?thesis by simp
  next
    case (Inr r)
    obtain ok x where r: "r = (ok, x)" by (cases r)
    from R Inr r obtain y where r2: "applyBinding c vm bs k w2 = Inr (ok, y)"
      and se: "same_effects x y"
      by (cases "applyBinding c vm bs k w2") auto
    show ?thesis
      using Inr r r2 se Cons.IH by simp
  qed
qed

text \<open>
  C3. A key \<open>K\<close> whose viewmodel property is absent or is not an Observable: when the loop
  of \<^verbatim>\<open>Binder.apply\<close> reaches it, \<^verbatim>\<open>applyBinding\<close> returns \<^verbatim>\<open>false\<close> without raising, leaves
  the observables, the \<^verbatim>\<open>setField\<close> calls and the subscriber calls as they were and logs no
  warning itself; \<^verbatim>\<open>Binder.apply\<close> then logs the warning for \<open>K\<close> and goes on with the
  later keys. The whole call ends as the loop without \<open>K\<close> would: with the same error, or
  with the same observables, \<^verbatim>\<open>setField\<close> calls and subscriber calls.
\<close>

theorem unresolved_key_warns_and_continues:
  assumes "map fst bindings = pre @ K # post"
    and "\<not> is_Observable (property viewmodel K)"
    and "apply_keys context viewmodel bindings pre w = Inr w0"
  shows "\<exists>w1. applyBinding context viewmodel bindings K w0 = Inr (False, w1)
           \<and> heap w1 = heap w0 \<and> calls w1 = calls w0 \<and> invoked w1 = invoked w0
           \<and> warnings (log w1) = warnings (log w0)
           \<and> Binder_apply context viewmodel bindings w
               = apply_keys context viewmodel bindings post
                   (log_warning (''Could not find observable property on viewmodel for ''
                                 @ quoted K) w1)
           \<and> rel_sum (=) same_effects
                 (Binder_apply context viewmodel bindings w)
                 (apply_keys context viewmodel bindings (pre @ post) w)"
proof -
  let ?w1 = "if property viewmodel K = VUndefined then w0
             else log_debug (''Binding failed: Observable is not an observable, but of type ''
                             @ quoted (typeof (property viewmodel K))) w0"
  have step: "applyBinding context viewmodel bindings K w0 = Inr (False, ?w1)"
    by (rule applyBinding_unresolved [OF assms(2)])
  have "Binder_apply context viewmodel bindings w
          = apply_keys context viewmodel bindings post
              (log_warning (''Could not find observable property on viewmodel for ''
                            @ quoted K) ?w1)"
    using Binder_apply_split [OF assms(1) assms(3)] step by simp
  moreover have "heap ?w1 = heap w0" "calls ?w1 = calls w0" "invoked ?w1 = invoked w0"
    "warnings (log ?w1) = warnings (log w0)"
    by simp_all
  moreover have "rel_sum (=) same_effects
                 (Binder_apply context viewmodel bindings w)
                 (apply_keys context viewmodel bindings (pre @ post) w)"
  proof -
    let ?w2 = "log_warning (''Could not find observable property on viewmodel for ''
                            @ quoted K) ?w1"
    have a: "Binder_apply context viewmodel bindings w
               = apply_keys context viewmodel bindings post ?w2"
      using Binder_apply_split [OF assms(1) assms(3)] step by simp
    have b: "apply_keys context viewmodel bindings (pre @ post) w
               = apply_keys context viewmodel bindings post w0"
      using assms(3) by (simp add: apply_keys_append)
    have "same_effects ?w2 w0" by simp
    from apply_keys_same_effects [OF this] show ?thesis unfolding a b .
  qed
  ultimately show ?thesis using step by blast
qed

theorem unresolved_key_warns_and_continues_witness:
  "map fst [(''ghost'', DString ''title''), (''count'', DString ''label'')]
     = [] @ ''ghost'' # [''count'']
   \<and> \<not> is_Observable (property [''count'' \<mapsto> VObs 0] ''ghost'')
   \<and> apply_keys 0 [''count'' \<mapsto> VObs 0]
        [(''ghost'', DString ''title''), (''count'', DString ''label'')] []
        (fresh_world (VNum 0)) = Inr (fresh_world (VNum 0))
   \<and> (\<exists>w'. Binder_apply 0 [''count'' \<mapsto> VObs 0]
               [(''ghost'', DString ''title''), (''count'', DString ''label'')]
               (fresh_world (VNum 0)) = Inr w'
          \<and> calls w' = [(0, ''label'', VNum 0)]
          \<and> warnings (log w')
              = [''Could not find observable property on viewmodel for '' @ quoted ''ghost''])"
proof -
  let ?vm = "[''count'' \<mapsto> VObs 0] :: viewmodel"
  let ?bs = "[(''ghost'', DString ''title''), (''count'', DString ''label'')]"
  have h1: "map fst ?bs = [] @ ''ghost'' # [''count'']" by simp
  have h2: "\<not> is_Observable (property ?vm ''ghost'')" by (simp add: property_def)
  have h3: "apply_keys 0 ?vm ?bs [] (fresh_world (VNum 0)) = Inr (fresh_world (VNum 0))"
    by simp
  from unresolved_key_warns_and_continues [OF h1 h2 h3]
  obtain w1 where
    a: "applyBinding 0 ?vm ?bs ''ghost'' (fresh_world (VNum 0)) = Inr (False, w1)"
    and b: "Binder_apply 0 ?vm ?bs (fresh_world (VNum 0))
             = apply_keys 0 ?vm ?bs [''count'']
                 (log_warning (''Could not find observable property on viewmodel for ''
                               @ quoted ''ghost'') w1)"
    by blast
  from a have w1: "w1 = fresh_world (VNum 0)"
    by (simp add: applyBinding_def property_def)
  have "\<exists>w'. Binder_apply 0 ?vm ?bs (fresh_world (VNum 0)) = Inr w'
          \<and> calls w' = [(0, ''label'', VNum 0)]
          \<and> warnings (log w')
              = [''Could not find observable property on viewmodel for '' @ quoted ''ghost'']"
    unfolding b w1
    by (simp add: applyBinding_def property_def descriptor_at_def Let_def fresh_world_def
        obs_get_def)
  with h1 h2 h3 show ?thesis by blast
qed

text \<open>
  C9. A key \<open>K\<close> whose viewmodel property is an Observable and whose descriptor is an
  object without the key \<^verbatim>\<open>update\<close>: \<^verbatim>\<open>applyBinding\<close> returns \<^verbatim>\<open>true\<close> and leaves the world
  exactly as it was (no \<^verbatim>\<open>setField\<close>, no subscription, no log line), so \<^verbatim>\<open>Binder.apply\<close>
  goes on with the later keys without a warning.
\<close>

theorem object_without_update_dropped_silently:
  assumes "map fst bindings = pre @ K # post"
    and "descriptor_at bindings K = DObject binding"
    and "binding ''update'' = None"
    and "property viewmodel K = VObs a"
    and "apply_keys context viewmodel bindings pre w = Inr w0"
  shows "applyBinding context viewmodel bindings K w0 = Inr (True, w0)
         \<and> Binder_apply context viewmodel bindings w
             = apply_keys context viewmodel bindings post w0"
proof -
  have step: "applyBinding context viewmodel bindings K w0 = Inr (True, w0)"
    by (rule applyBinding_no_update [OF assms(4) assms(2) assms(3)])
  then show ?thesis
    using Binder_apply_split [OF assms(1) assms(5)] by simp
qed

theorem object_without_update_dropped_silently_witness:
  "map fst [(''count'', DObject [''bind'' \<mapsto> ''label''])] = [] @ ''count'' # []
   \<and> descriptor_at [(''count'', DObject [''bind'' \<mapsto> ''label''])] ''count''
       = DObject [''bind'' \<mapsto> ''label'']
   \<and> [''bind'' \<mapsto> ''label''] ''update'' = None
   \<and> property [''count'' \<mapsto> VObs 0] ''count'' = VObs 0
   \<and> apply_keys 0 [''count'' \<mapsto> VObs 0] [(''count'', DObject [''bind'' \<mapsto> ''label''])] []
        (fresh_world (VNum 0)) = Inr (fresh_world (VNum 0))
   \<and> Binder_apply 0 [''count'' \<mapsto> VObs 0] [(''count'', DObject [''bind'' \<mapsto> ''label''])]
        (fresh_world (VNum 0)) = Inr (fresh_world (VNum 0))"
proof -
  let ?vm = "[''count'' \<mapsto> VObs 0] :: viewmodel"
  let ?bs = "[(''count'', DObject [''bind'' \<mapsto> ''label''])]"
  have h1: "map fst ?bs = [] @ ''count'' # []" by simp
  have h2: "descriptor_at ?bs ''count'' = DObject [''bind'' \<mapsto> ''label'']"
    by (simp add: descriptor_at_def)
  have h3: "[''bind'' \<mapsto> ''label''] ''update'' = None" by simp
  have h4: "property ?vm ''count'' = VObs 0" by (simp add: property_def)
  have h5: "apply_keys 0 ?vm ?bs [] (fresh_world (VNum 0)) = Inr (fresh_world (VNum 0))"
    by simp
  from object_without_update_dropped_silently [OF h1 h2 h3 h4 h5]
  have "Binder_apply 0 ?vm ?bs (fresh_world (VNum 0)) = Inr (fresh_world (VNum 0))"
    by simp
  with h1 h2 h3 h4 h5 show ?thesis by blast
qed

text \<open>
  C10. For a two-way descriptor on a resolved Observable, the \<^verbatim>\<open>setField\<close> calls of
  \<^verbatim>\<open>applyBinding\<close> are, in this order, the registration of the handler on the
  \<^verbatim>\<open>update\<close> field and then the push of the current value to the \<^verbatim>\<open>bind\<close> field.
\<close>

theorem two_way_handler_before_push:
  assumes "property viewmodel K = VObs a"
    and "descriptor_at bindings K = DObject binding"
    and "binding ''bind'' = Some A"
    and "binding ''update'' = Some B"
  shows "\<exists>w1. applyBinding context viewmodel bindings K w = Inr (True, w1)
           \<and> calls w1 = calls w @ [(context, B, VFun (Setter a)), (context, A, obs_get a w)]"
  using applyBinding_two_way [OF assms(1) assms(2) assms(4) assms(3), of "context" w]
  by simp

theorem two_way_handler_before_push_witness:
  "property [''count'' \<mapsto> VObs 0] ''count'' = VObs 0
   \<and> descriptor_at [(''count'', DObject [''bind'' \<mapsto> ''a'', ''update'' \<mapsto> ''b''])] ''count''
       = DObject [''bind'' \<mapsto> ''a'', ''update'' \<mapsto> ''b'']
   \<and> [''bind'' \<mapsto> ''a'', ''update'' \<mapsto> ''b''] ''bind'' = Some ''a''
   \<and> [''bind'' \<mapsto> ''a'', ''update'' \<mapsto> ''b''] ''update'' = Some ''b''
   \<and> (\<exists>w1. applyBinding 0 [''count'' \<mapsto> VObs 0]
               [(''count'', DObject [''bind'' \<mapsto> ''a'', ''update'' \<mapsto> ''b''])] ''count''
               (fresh_world (VNum 5)) = Inr (True, w1)
          \<and> calls w1 = [(0, ''b'', VFun (Setter 0)), (0, ''a'', VNum 5)])"
proof -
  let ?vm = "[''count'' \<mapsto> VObs 0] :: viewmodel"
  let ?obj = "[''bind'' \<mapsto> ''a'', ''update'' \<mapsto> ''b''] :: string \<rightharpoonup> field"
  let ?bs = "[(''count'', DObject ?obj)]"
  have h1: "property ?vm ''count'' = VObs 0" by (simp add: property_def)
  have h2: "descriptor_at ?bs ''count'' = DObject ?obj" by (simp add: descriptor_at_def)
  have h3: "?obj ''bind'' = Some ''a''" by simp
  have h4: "?obj ''update'' = Some ''b''" by simp
  from two_way_handler_before_push [OF h1 h2 h3 h4, of 0 "fresh_world (VNum 5)"]
  have "\<exists>w1. applyBinding 0 ?vm ?bs ''count'' (fresh_world (VNum 5)) = Inr (True, w1)
          \<and> calls w1 = [(0, ''b'', VFun (Setter 0)), (0, ''a'', VNum 5)]"
    by (simp add: fresh_world_def obs_get_def)
  with h1 h2 h3 h4 show ?thesis by blast
qed

text \<open>
  C5. A key \<open>K\<close> whose descriptor is an object with \<^verbatim>\<open>update\<close> naming \<open>U\<close> and whose
  viewmodel property is an Observable \<open>a\<close>: when the loop of \<^verbatim>\<open>Binder.apply\<close> reaches \<open>K\<close>,
  its first \<^verbatim>\<open>setField\<close> call registers on \<open>U\<close> the handler that wraps \<open>a\<close>'s \<^verbatim>\<open>set\<close>
  (followed only by the push to the \<^verbatim>\<open>bind\<close> field, if the object has one); and calling
  that handler with any \<open>v\<close> in any world is \<^verbatim>\<open>a.set(v)\<close>, after which \<^verbatim>\<open>a.get()\<close> is \<open>v\<close>.
\<close>

theorem to_source_handler_writes_observable:
  assumes "map fst bindings = pre @ K # post"
    and "descriptor_at bindings K = DObject binding"
    and "binding ''update'' = Some U"
    and "property viewmodel K = VObs a"
    and "apply_keys context viewmodel bindings pre w = Inr w0"
  shows "\<exists>w1. Binder_apply context viewmodel bindings w
                 = apply_keys context viewmodel bindings post w1
           \<and> calls w1 = calls w0 @ (context, U, VFun (Setter a))
                 # (case binding ''bind'' of None \<Rightarrow> []
                    | Some toTarget \<Rightarrow> [(context, toTarget, obs_get a w0)])
           \<and> (\<forall>w2 v. call_handler (VFun (Setter a)) v w2 = Inr (obs_set a v w2)
                 \<and> obs_get a (obs_set a v w2) = v)"
proof -
  have handler: "\<forall>w2 v. call_handler (VFun (Setter a)) v w2 = Inr (obs_set a v w2)
                 \<and> obs_get a (obs_set a v w2) = v"
    by (simp add: obs_get_def)
  show ?thesis
  proof (cases "binding ''bind''")
    case None
    let ?w1 = "log_debug (''Binding created: '' @ quoted K @ '' <- '' @ quoted U)
                 (setField context U (VFun (Setter a)) w0)"
    have step: "applyBinding context viewmodel bindings K w0 = Inr (True, ?w1)"
      by (rule applyBinding_to_source [OF assms(4) assms(2) assms(3) None])
    have "Binder_apply context viewmodel bindings w
            = apply_keys context viewmodel bindings post ?w1"
      using Binder_apply_split [OF assms(1) assms(5)] step by simp
    moreover have "calls ?w1 = calls w0 @ (context, U, VFun (Setter a))
                 # (case binding ''bind'' of None \<Rightarrow> []
                    | Some toTarget \<Rightarrow> [(context, toTarget, obs_get a w0)])"
      using None by simp
    ultimately show ?thesis using handler by blast
  next
    case (Some t)
    let ?w1 = "log_debug (''Binding created: '' @ quoted K @ '' <-> '' @ quoted (t @ '':'' @ U))
         (obs_subscribe a (PushField context t)
           (setField context t (obs_get a w0) (setField context U (VFun (Setter a)) w0)))"
    have step: "applyBinding context viewmodel bindings K w0 = Inr (True, ?w1)"
      by (rule applyBinding_two_way [OF assms(4) assms(2) assms(3) Some])
    have "Binder_apply context viewmodel bindings w
            = apply_keys context viewmodel bindings post ?w1"
      using Binder_apply_split [OF assms(1) assms(5)] step by simp
    moreover have "calls ?w1 = calls w0 @ (context, U, VFun (Setter a))
                 # (case binding ''bind'' of None \<Rightarrow> []
                    | Some toTarget \<Rightarrow> [(context, toTarget, obs_get a w0)])"
      using Some by simp
    ultimately show ?thesis using handler by blast
  qed
qed

theorem to_source_handler_writes_observable_witness:
  "map fst [(''count'', DObject [''update'' \<mapsto> ''onChange''])] = [] @ ''count'' # []
   \<and> descriptor_at [(''count'', DObject [''update'' \<mapsto> ''onChange''])] ''count''
       = DObject [''update'' \<mapsto> ''onChange'']
   \<and> [''update'' \<mapsto> ''onChange''] ''update'' = Some ''onChange''
   \<and> property [''count'' \<mapsto> VObs 0] ''count'' = VObs 0
   \<and> apply_keys 0 [''count'' \<mapsto> VObs 0] [(''count'', DObject [''update'' \<mapsto> ''onChange''])]
        [] (fresh_world (VNum 0)) = Inr (fresh_world (VNum 0))
   \<and> (\<exists>w1. Binder_apply 0 [''count'' \<mapsto> VObs 0]
               [(''count'', DObject [''update'' \<mapsto> ''onChange''])] (fresh_world (VNum 0))
             = Inr w1
          \<and> calls w1 = [(0, ''onChange'', VFun (Setter 0))]
          \<and> call_handler (VFun (Setter 0)) (VNum 7) w1 = Inr (obs_set 0 (VNum 7) w1)
          \<and> obs_get 0 (obs_set 0 (VNum 7) w1) = VNum 7)"
proof -
  let ?vm = "[''count'' \<mapsto> VObs 0] :: viewmodel"
  let ?obj = "[''update'' \<mapsto> ''onChange''] :: string \<rightharpoonup> field"
  let ?bs = "[(''count'', DObject ?obj)]"
  have h1: "map fst ?bs = [] @ ''count'' # []" by simp
  have h2: "descriptor_at ?bs ''count'' = DObject ?obj" by (simp add: descriptor_at_def)
  have h3: "?obj ''update'' = Some ''onChange''" by simp
  have h4: "property ?vm ''count'' = VObs 0" by (simp add: property_def)
  have h5: "apply_keys 0 ?vm ?bs [] (fresh_world (VNum 0)) = Inr (fresh_world (VNum 0))"
    by simp
  from to_source_handler_writes_observable [OF h1 h2 h3 h4 h5]
  have "\<exists>w1. Binder_apply 0 ?vm ?bs (fresh_world (VNum 0)) = Inr w1
          \<and> calls w1 = [(0, ''onChange'', VFun (Setter 0))]
          \<and> call_handler (VFun (Setter 0)) (VNum 7) w1 = Inr (obs_set 0 (VNum 7) w1)
          \<and> obs_get 0 (obs_set 0 (VNum 7) w1) = VNum 7"
    by (auto simp: fresh_world_def obs_get_def)
  with h1 h2 h3 h4 h5 show ?thesis by blast
qed

text \<open>
  C4 (amended). A key \<open>K\<close> with a descriptor that has \<^verbatim>\<open>bind\<close> naming \<open>A\<close> and \<^verbatim>\<open>update\<close>
  naming \<open>B\<close>, on an Observable \<open>a\<close>: when the loop of \<^verbatim>\<open>Binder.apply\<close> reaches \<open>K\<close>, the
  \<^verbatim>\<open>setField\<close> calls it makes are the push of \<open>a\<close>'s current value to \<open>A\<close> and the
  registration of the handler on \<open>B\<close>, and the one subscriber it appends to \<open>a\<close> pushes to
  \<open>A\<close>; after \<^verbatim>\<open>Binder.apply\<close> every \<^verbatim>\<open>set(v)\<close> on \<open>a\<close> calls \<^verbatim>\<open>setField(A, v)\<close>; and the
  handler, called with \<open>v\<close>, is \<^verbatim>\<open>a.set(v)\<close>: it stores \<open>v\<close> and makes the \<^verbatim>\<open>setField\<close>
  calls of \<open>a\<close>'s subscribers and no other. The two directions are independent in their
  field names, and in one direction of the data flow only: a push to \<open>A\<close> is one
  \<^verbatim>\<open>setField\<close> call on \<open>A\<close> and touches no observable, so it does not run the handler;
  the handler, being a \<^verbatim>\<open>set\<close>, does push its argument to \<open>A\<close>.
\<close>

theorem two_way_binding_both_directions:
  assumes "map fst bindings = pre @ K # post"
    and "descriptor_at bindings K = DObject binding"
    and "binding ''bind'' = Some A"
    and "binding ''update'' = Some B"
    and "property viewmodel K = VObs a"
    and "apply_keys context viewmodel bindings pre w = Inr w0"
  shows "\<exists>w1. Binder_apply context viewmodel bindings w
                 = apply_keys context viewmodel bindings post w1
           \<and> set (drop (length (calls w0)) (calls w1))
               = {(context, A, obs_get a w0), (context, B, VFun (Setter a))}
           \<and> subscribers (heap w1 a) = subscribers (heap w0 a) @ [PushField context A]
           \<and> (\<forall>w' later v. Binder_apply context viewmodel bindings w = Inr w'
                 \<longrightarrow> (context, A, v) \<in> set (set_calls a v (run_sets later w')))
           \<and> (\<forall>w2 v. call_handler (VFun (Setter a)) v w2 = Inr (obs_set a v w2)
                 \<and> obs_get a (obs_set a v w2) = v
                 \<and> set_calls a v w2 = push_calls (subscribers (heap w2 a)) v)
           \<and> (\<forall>w2 v. heap (invoke (PushField context A) v w2) = heap w2
                 \<and> calls (invoke (PushField context A) v w2) = calls w2 @ [(context, A, v)])
           \<and> (\<forall>w' later v. Binder_apply context viewmodel bindings w = Inr w'
                 \<longrightarrow> (\<exists>w2. call_handler (VFun (Setter a)) v (run_sets later w') = Inr w2
                        \<and> (context, A, v)
                            \<in> set (drop (length (calls (run_sets later w'))) (calls w2))))"
proof -
  let ?w1 = "log_debug (''Binding created: '' @ quoted K @ '' <-> '' @ quoted (A @ '':'' @ B))
         (obs_subscribe a (PushField context A)
           (setField context A (obs_get a w0) (setField context B (VFun (Setter a)) w0)))"
  have step: "applyBinding context viewmodel bindings K w0 = Inr (True, ?w1)"
    by (rule applyBinding_two_way [OF assms(5) assms(2) assms(4) assms(3)])
  have sub: "PushField context A \<in> set (subscribers (heap w' a))"
    if "Binder_apply context viewmodel bindings w = Inr w'" for w'
  proof -
    have "K \<in> set (map fst bindings)" using assms(1) by simp
    from Binder_apply_subscribed [OF that this assms(5)] assms(2,3,4)
    show ?thesis by simp
  qed
  have f1: "Binder_apply context viewmodel bindings w
              = apply_keys context viewmodel bindings post ?w1"
    using Binder_apply_split [OF assms(1) assms(6)] step by simp
  have f2: "set (drop (length (calls w0)) (calls ?w1))
               = {(context, A, obs_get a w0), (context, B, VFun (Setter a))}"
    by auto
  have f3: "subscribers (heap ?w1 a) = subscribers (heap w0 a) @ [PushField context A]"
    by simp
  have f4: "\<forall>w' later v. Binder_apply context viewmodel bindings w = Inr w'
              \<longrightarrow> (context, A, v) \<in> set (set_calls a v (run_sets later w'))"
    using sub by (simp add: set_calls_eq in_push_calls)
  have f5: "\<forall>w2 v. call_handler (VFun (Setter a)) v w2 = Inr (obs_set a v w2)
                 \<and> obs_get a (obs_set a v w2) = v
                 \<and> set_calls a v w2 = push_calls (subscribers (heap w2 a)) v"
    by (simp add: obs_get_def set_calls_eq)
  have f6: "\<forall>w2 v. heap (invoke (PushField context A) v w2) = heap w2
                 \<and> calls (invoke (PushField context A) v w2) = calls w2 @ [(context, A, v)]"
    by simp
  have f7: "\<forall>w' later v. Binder_apply context viewmodel bindings w = Inr w'
                 \<longrightarrow> (\<exists>w2. call_handler (VFun (Setter a)) v (run_sets later w') = Inr w2
                        \<and> (context, A, v)
                            \<in> set (drop (length (calls (run_sets later w'))) (calls w2)))"
    using sub by (simp add: in_push_calls)
  show ?thesis
    by (rule exI [of _ "?w1"]) (intro conjI f1 f2 f3 f4 f5 f6 f7)
qed

theorem two_way_binding_both_directions_witness:
  "map fst [(''count'', DObject [''bind'' \<mapsto> ''a'', ''update'' \<mapsto> ''b''])] = [] @ ''count'' # []
   \<and> descriptor_at [(''count'', DObject [''bind'' \<mapsto> ''a'', ''update'' \<mapsto> ''b''])] ''count''
       = DObject [''bind'' \<mapsto> ''a'', ''update'' \<mapsto> ''b'']
   \<and> [''bind'' \<mapsto> ''a'', ''update'' \<mapsto> ''b''] ''bind'' = Some ''a''
   \<and> [''bind'' \<mapsto> ''a'', ''update'' \<mapsto> ''b''] ''update'' = Some ''b''
   \<and> property [''count'' \<mapsto> VObs 0] ''count'' = VObs 0
   \<and> apply_keys 0 [''count'' \<mapsto> VObs 0]
        [(''count'', DObject [''bind'' \<mapsto> ''a'', ''update'' \<mapsto> ''b''])] []
        (fresh_world (VNum 0)) = Inr (fresh_world (VNum 0))
   \<and> (\<exists>w1. Binder_apply 0 [''count'' \<mapsto> VObs 0]
               [(''count'', DObject [''bind'' \<mapsto> ''a'', ''update'' \<mapsto> ''b''])]
               (fresh_world (VNum 0)) = Inr w1
          \<and> set (calls w1) = {(0, ''a'', VNum 0), (0, ''b'', VFun (Setter 0))}
          \<and> subscribers (heap w1 0) = [PushField 0 ''a'']
          \<and> (0, ''a'', VNum 3) \<in> set (set_calls 0 (VNum 3) w1)
          \<and> call_handler (VFun (Setter 0)) (VNum 7) w1 = Inr (obs_set 0 (VNum 7) w1)
          \<and> obs_get 0 (obs_set 0 (VNum 7) w1) = VNum 7
          \<and> (0, ''a'', VNum 7) \<in> set (drop (length (calls w1)) (calls (obs_set 0 (VNum 7) w1))))"
proof -
  let ?vm = "[''count'' \<mapsto> VObs 0] :: viewmodel"
  let ?obj = "[''bind'' \<mapsto> ''a'', ''update'' \<mapsto> ''b''] :: string \<rightharpoonup> field"
  let ?bs = "[(''count'', DObject ?obj)]"
  have h1: "map fst ?bs = [] @ ''count'' # []" by simp
  have h2: "descriptor_at ?bs ''count'' = DObject ?obj" by (simp add: descriptor_at_def)
  have h3: "?obj ''bind'' = Some ''a''" by simp
  have h4: "?obj ''update'' = Some ''b''" by simp
  have h5: "property ?vm ''count'' = VObs 0" by (simp add: property_def)
  have h6: "apply_keys 0 ?vm ?bs [] (fresh_world (VNum 0)) = Inr (fresh_world (VNum 0))"
    by simp
  from two_way_binding_both_directions [OF h1 h2 h3 h4 h5 h6]
  obtain w1 where
    a: "Binder_apply 0 ?vm ?bs (fresh_world (VNum 0)) = apply_keys 0 ?vm ?bs [] w1"
    and b: "set (drop (length (calls (fresh_world (VNum 0)))) (calls w1))
             = {(0, ''a'', obs_get 0 (fresh_world (VNum 0))), (0, ''b'', VFun (Setter 0))}"
    and c: "subscribers (heap w1 0)
             = subscribers (heap (fresh_world (VNum 0)) 0) @ [PushField 0 ''a'']"
    and d: "\<forall>w' later v. Binder_apply 0 ?vm ?bs (fresh_world (VNum 0)) = Inr w'
              \<longrightarrow> (0, ''a'', v) \<in> set (set_calls 0 v (run_sets later w'))"
    and e: "\<forall>w2 v. call_handler (VFun (Setter 0)) v w2 = Inr (obs_set 0 v w2)
                 \<and> obs_get 0 (obs_set 0 v w2) = v
                 \<and> set_calls 0 v w2 = push_calls (subscribers (heap w2 0)) v"
    and g: "\<forall>w' later v. Binder_apply 0 ?vm ?bs (fresh_world (VNum 0)) = Inr w'
                 \<longrightarrow> (\<exists>w2. call_handler (VFun (Setter 0)) v (run_sets later w') = Inr w2
                        \<and> (0, ''a'', v)
                            \<in> set (drop (length (calls (run_sets later w'))) (calls w2)))"
    by (elim exE conjE)
  from a have a': "Binder_apply 0 ?vm ?bs (fresh_world (VNum 0)) = Inr w1" by simp
  from b have b': "set (calls w1) = {(0, ''a'', VNum 0), (0, ''b'', VFun (Setter 0))}"
    by (simp add: fresh_world_def obs_get_def)
  from c have c': "subscribers (heap w1 0) = [PushField 0 ''a'']"
    by (simp add: fresh_world_def)
  from d a' have "(0, ''a'', VNum 3) \<in> set (set_calls 0 (VNum 3) (run_sets [] w1))" by blast
  then have d': "(0, ''a'', VNum 3) \<in> set (set_calls 0 (VNum 3) w1)" by simp
  from e have e': "call_handler (VFun (Setter 0)) (VNum 7) w1 = Inr (obs_set 0 (VNum 7) w1)"
    and e'': "obs_get 0 (obs_set 0 (VNum 7) w1) = VNum 7" by blast+
  from g a' have "\<exists>w2. call_handler (VFun (Setter 0)) (VNum 7) (run_sets [] w1) = Inr w2
                        \<and> (0, ''a'', VNum 7)
                            \<in> set (drop (length (calls (run_sets [] w1))) (calls w2))" by blast
  then have g': "(0, ''a'', VNum 7)
                   \<in> set (drop (length (calls w1)) (calls (obs_set 0 (VNum 7) w1)))"
    by auto
  show ?thesis
    by (intro conjI exI [of _ w1] h1 h2 h3 h4 h5 h6 a' b' c' d' e' e'' g')
qed

text \<open>
  C4 without the amendment fails in the second direction. After the two-way binding of
  \<^verbatim>\<open>count\<close> to \<^verbatim>\<open>bind: a, update: b\<close>, calling the handler registered on \<open>b\<close> with 7 makes
  a \<^verbatim>\<open>setField\<close> call of 7 on \<open>a\<close>: lines 67 and 75 of the binder share one observable.
\<close>

theorem two_way_handler_pushes_counterexample:
  "property two_way_viewmodel ''count'' = VObs 0
   \<and> descriptor_at two_way_bindings ''count''
       = DObject [''bind'' \<mapsto> ''a'', ''update'' \<mapsto> ''b'']
   \<and> \<not> isl (Binder_apply 0 two_way_viewmodel two_way_bindings (fresh_world (VNum 0)))
   \<and> calls (projr (Binder_apply 0 two_way_viewmodel two_way_bindings (fresh_world (VNum 0))))
       = [(0, ''b'', VFun (Setter 0)), (0, ''a'', VNum 0)]
   \<and> \<not> isl (call_handler (VFun (Setter 0)) (VNum 7)
              (projr (Binder_apply 0 two_way_viewmodel two_way_bindings (fresh_world (VNum 0)))))
   \<and> calls (projr (call_handler (VFun (Setter 0)) (VNum 7)
              (projr (Binder_apply 0 two_way_viewmodel two_way_bindings (fresh_world (VNum 0))))))
       = [(0, ''b'', VFun (Setter 0)), (0, ''a'', VNum 0), (0, ''a'', VNum 7)]"
  by (simp add: two_way_bindings_def two_way_viewmodel_def descriptor_at_def property_def
      Binder_apply_def applyBinding_def Let_def fresh_world_def obs_get_def)

section \<open>Binder.applyAll: properties\<close>

lemma applyBinding_calls:
  assumes "applyBinding c vm bs k w = Inr (ok, w1)"
  shows "calls w1 = calls w @ new_calls c vm bs k w"
  using assms
  by (cases "property vm k")
     (auto simp: applyBinding_def new_calls_def Let_def split: descriptor.splits option.splits)

lemma applyBinding_returns:
  assumes "descriptor_at bs k \<noteq> DPrimitive"
  shows "\<exists>w1. applyBinding c vm bs k w = Inr (is_Observable (property vm k), w1)"
  using assms
  by (cases "property vm k")
     (auto simp: applyBinding_def Let_def split: descriptor.splits option.splits)

lemma new_calls_current:
  assumes "\<And>b. current (heap w1 b) = current (heap w b)"
  shows "new_calls c vm bs k w1 = new_calls c vm bs k w"
proof -
  have "obs_get a w1 = obs_get a w" for a
    using assms [of a] by (simp add: obs_get_def)
  then show ?thesis
    by (simp add: new_calls_def split: val.splits descriptor.splits option.splits)
qed

lemma applyAll_viewmodels_effect:
  assumes "descriptor_at bs k \<noteq> DPrimitive"
  shows "\<exists>w1. applyAll_viewmodels c vms bs k s w = Inr (s \<or> resolves_on vms k, w1)
           \<and> warnings (log w1) = warnings (log w)
           \<and> calls w1 = calls w @ concat (map (\<lambda>vm. new_calls c vm bs k w) vms)
           \<and> (\<forall>b. subscribers (heap w1 b)
                 = subscribers (heap w b) @ concat (map (\<lambda>vm. new_subscribers c vm bs k b) vms))
           \<and> (\<forall>b. current (heap w1 b) = current (heap w b))"
proof (induction vms arbitrary: s w)
  case Nil
  show ?case by (simp add: resolves_on_def)
next
  case (Cons vm vms)
  from applyBinding_returns [OF assms] obtain w0 where
    step: "applyBinding c vm bs k w = Inr (is_Observable (property vm k), w0)" by blast
  note cur = applyBinding_current [OF step]
  from Cons.IH [of "is_Observable (property vm k) \<or> s" w0] obtain w1 where
    r: "applyAll_viewmodels c vms bs k (is_Observable (property vm k) \<or> s) w0
          = Inr ((is_Observable (property vm k) \<or> s) \<or> resolves_on vms k, w1)"
    and wn: "warnings (log w1) = warnings (log w0)"
    and cl: "calls w1 = calls w0 @ concat (map (\<lambda>vm. new_calls c vm bs k w0) vms)"
    and sb: "\<forall>b. subscribers (heap w1 b)
                 = subscribers (heap w0 b) @ concat (map (\<lambda>vm. new_subscribers c vm bs k b) vms)"
    and cu: "\<forall>b. current (heap w1 b) = current (heap w0 b)"
    by blast
  have "applyAll_viewmodels c (vm # vms) bs k s w = Inr (s \<or> resolves_on (vm # vms) k, w1)"
    using step r by (auto simp: resolves_on_def)
  moreover have "warnings (log w1) = warnings (log w)"
    using wn applyBinding_warnings [OF step] by simp
  moreover have "calls w1 = calls w @ concat (map (\<lambda>vm. new_calls c vm bs k w) (vm # vms))"
    using cl applyBinding_calls [OF step] new_calls_current [of w0 w, OF cur] by simp
  moreover have "\<forall>b. subscribers (heap w1 b)
                 = subscribers (heap w b) @ concat (map (\<lambda>vm. new_subscribers c vm bs k b) (vm # vms))"
    using sb applyBinding_subscribers [OF step] by simp
  moreover have "\<forall>b. current (heap w1 b) = current (heap w b)"
    using cu cur by simp
  ultimately show ?case by blast
qed


lemma applyAll_keys_effect:
  assumes "\<forall>k\<in>set ks. descriptor_at bs k \<noteq> DPrimitive"
  shows "\<exists>w'. applyAll_keys c vms bs ks w = Inr w'
           \<and> warnings (log w')
               = warnings (log w)
                 @ map (\<lambda>k. ''Could not find observable property on any viewmodels for '' @ quoted k)
                     (filter (\<lambda>k. \<not> resolves_on vms k) ks)
           \<and> calls w'
               = calls w @ concat (map (\<lambda>k. concat (map (\<lambda>vm. new_calls c vm bs k w) vms)) ks)
           \<and> (\<forall>b. subscribers (heap w' b)
                 = subscribers (heap w b)
                   @ concat (map (\<lambda>k. concat (map (\<lambda>vm. new_subscribers c vm bs k b) vms)) ks))
           \<and> (\<forall>b. current (heap w' b) = current (heap w b))"
  using assms
proof (induction ks arbitrary: w)
  case Nil
  show ?case by simp
next
  case (Cons k ks)
  let ?msg = "\<lambda>k. ''Could not find observable property on any viewmodels for '' @ quoted k"
  from Cons.prems have dk: "descriptor_at bs k \<noteq> DPrimitive"
    and rest: "\<forall>k\<in>set ks. descriptor_at bs k \<noteq> DPrimitive" by simp_all
  from applyAll_viewmodels_effect [OF dk, of c vms False w] obtain w1 where
    inner: "applyAll_viewmodels c vms bs k False w = Inr (resolves_on vms k, w1)"
    and wn1: "warnings (log w1) = warnings (log w)"
    and cl1: "calls w1 = calls w @ concat (map (\<lambda>vm. new_calls c vm bs k w) vms)"
    and sb1: "\<forall>b. subscribers (heap w1 b)
                 = subscribers (heap w b) @ concat (map (\<lambda>vm. new_subscribers c vm bs k b) vms)"
    and cu1: "\<forall>b. current (heap w1 b) = current (heap w b)"
    by auto
  define w2 where "w2 = (if \<not> resolves_on vms k then log_warning (?msg k) w1 else w1)"
  have wn2: "warnings (log w2) = warnings (log w) @ map ?msg (filter (\<lambda>k. \<not> resolves_on vms k) [k])"
    using wn1 by (simp add: w2_def)
  have cl2: "calls w2 = calls w1" and hp2: "heap w2 = heap w1"
    by (simp_all add: w2_def)
  have cu2: "current (heap w2 b) = current (heap w b)" for b
    using cu1 hp2 by simp
  from Cons.IH [OF rest, of w2] obtain w' where
    r: "applyAll_keys c vms bs ks w2 = Inr w'"
    and wn: "warnings (log w') = warnings (log w2) @ map ?msg (filter (\<lambda>k. \<not> resolves_on vms k) ks)"
    and cl: "calls w' = calls w2 @ concat (map (\<lambda>k. concat (map (\<lambda>vm. new_calls c vm bs k w2) vms)) ks)"
    and sb: "\<forall>b. subscribers (heap w' b)
                 = subscribers (heap w2 b)
                   @ concat (map (\<lambda>k. concat (map (\<lambda>vm. new_subscribers c vm bs k b) vms)) ks)"
    and cu: "\<forall>b. current (heap w' b) = current (heap w2 b)"
    by blast
  have nc: "new_calls c vm bs k' w2 = new_calls c vm bs k' w" for vm k'
    by (rule new_calls_current) (rule cu2)
  have "applyAll_keys c vms bs (k # ks) w = Inr w'"
    using inner r by (simp add: w2_def)
  moreover have "warnings (log w')
      = warnings (log w) @ map ?msg (filter (\<lambda>k. \<not> resolves_on vms k) (k # ks))"
    using wn wn2 by simp
  moreover have "calls w'
      = calls w @ concat (map (\<lambda>k. concat (map (\<lambda>vm. new_calls c vm bs k w) vms)) (k # ks))"
    using cl cl2 cl1 by (simp add: nc)
  moreover have "\<forall>b. subscribers (heap w' b)
                 = subscribers (heap w b)
                   @ concat (map (\<lambda>k. concat (map (\<lambda>vm. new_subscribers c vm bs k b) vms)) (k # ks))"
    using sb sb1 hp2 by simp
  moreover have "\<forall>b. current (heap w' b) = current (heap w b)"
    using cu cu2 by simp
  ultimately show ?case by blast
qed

lemma count_list_map_filter:
  assumes "distinct ks" and "\<And>x y. f x = f y \<Longrightarrow> x = y"
  shows "count_list (map f (filter P ks)) (f k) = (if k \<in> set ks \<and> P k then 1 else 0)"
  using assms(1)
proof (induction ks)
  case Nil
  show ?case by simp
next
  case (Cons x ks)
  have eq: "f x = f k \<longleftrightarrow> x = k" using assms(2) [of x k] by blast
  from Cons.prems have nx: "x \<notin> set ks" and d: "distinct ks" by simp_all
  from Cons.IH [OF d] nx show ?case by (auto simp: eq)
qed

lemma count_list_append: "count_list (xs @ ys) x = count_list xs x + count_list ys x"
  by (induction xs) simp_all

lemma descriptor_at_in_bindings:
  assumes "k \<in> set (map fst bs)"
  shows "descriptor_at bs k \<in> snd ` set bs"
proof -
  from assms obtain d where "map_of bs k = Some d"
    by (cases "map_of bs k") (auto simp: map_of_eq_None_iff)
  then show ?thesis
    by (auto simp: descriptor_at_def dest: map_of_SomeD intro: image_eqI [where x = "(k, d)"])
qed


text \<open>
  C2. With descriptors of the three declared shapes (or any object), \<^verbatim>\<open>Binder.applyAll\<close>
  returns, and for every key in turn it has run \<^verbatim>\<open>applyBinding\<close> on every viewmodel in the
  given order, whether or not an earlier viewmodel had resolved the key: the \<^verbatim>\<open>setField\<close>
  calls and the subscribers it adds are those of each key on each viewmodel, in that
  order. The warnings it logs are one for each key that resolves on none of the
  viewmodels, in key order, and none for the other keys: with distinct keys, the warning for
  \<open>K\<close> is logged once if \<open>K\<close> resolves on none and not at all otherwise.
\<close>

theorem applyAll_binds_every_viewmodel_and_warns_once:
  assumes "DPrimitive \<notin> snd ` set bindings"
  shows "\<exists>w'. Binder_applyAll context viewmodels bindings w = Inr w'
           \<and> calls w'
               = calls w
                 @ concat (map (\<lambda>K. concat (map (\<lambda>vm. new_calls context vm bindings K w) viewmodels))
                     (map fst bindings))
           \<and> (\<forall>a. subscribers (heap w' a)
                 = subscribers (heap w a)
                   @ concat (map (\<lambda>K. concat (map (\<lambda>vm. new_subscribers context vm bindings K a)
                                               viewmodels))
                       (map fst bindings)))
           \<and> warnings (log w')
               = warnings (log w)
                 @ map (\<lambda>K. ''Could not find observable property on any viewmodels for '' @ quoted K)
                     (filter (\<lambda>K. \<not> resolves_on viewmodels K) (map fst bindings))
           \<and> (distinct (map fst bindings) \<longrightarrow>
                (\<forall>K\<in>set (map fst bindings).
                   count_list (warnings (log w'))
                     (''Could not find observable property on any viewmodels for '' @ quoted K)
                   = count_list (warnings (log w))
                       (''Could not find observable property on any viewmodels for '' @ quoted K)
                     + (if resolves_on viewmodels K then 0 else 1)))"
proof -
  let ?msg = "\<lambda>K. ''Could not find observable property on any viewmodels for '' @ quoted K"
  have wf: "\<forall>k\<in>set (map fst bindings). descriptor_at bindings k \<noteq> DPrimitive"
    using assms descriptor_at_in_bindings [of _ bindings] by metis
  from applyAll_keys_effect [OF wf, of "context" viewmodels w] obtain w' where
    r: "Binder_applyAll context viewmodels bindings w = Inr w'"
    and wn: "warnings (log w')
               = warnings (log w) @ map ?msg (filter (\<lambda>K. \<not> resolves_on viewmodels K) (map fst bindings))"
    and cl: "calls w'
               = calls w
                 @ concat (map (\<lambda>K. concat (map (\<lambda>vm. new_calls context vm bindings K w) viewmodels))
                     (map fst bindings))"
    and sb: "\<forall>a. subscribers (heap w' a)
                 = subscribers (heap w a)
                   @ concat (map (\<lambda>K. concat (map (\<lambda>vm. new_subscribers context vm bindings K a)
                                               viewmodels))
                       (map fst bindings))"
    unfolding Binder_applyAll_def by blast
  have inj: "?msg x = ?msg y \<Longrightarrow> x = y" for x y
    by (simp add: quoted_def)
  have cnt: "count_list (warnings (log w')) (?msg K)
               = count_list (warnings (log w)) (?msg K) + (if resolves_on viewmodels K then 0 else 1)"
    if d: "distinct (map fst bindings)" and k: "K \<in> set (map fst bindings)" for K
  proof -
    have "count_list (map ?msg (filter (\<lambda>K. \<not> resolves_on viewmodels K) (map fst bindings))) (?msg K)
            = (if K \<in> set (map fst bindings) \<and> \<not> resolves_on viewmodels K then 1 else 0)"
      by (rule count_list_map_filter [OF d]) (rule inj)
    with k show ?thesis unfolding wn count_list_append by simp
  qed
  from r cl sb wn cnt show ?thesis by blast
qed

theorem applyAll_binds_every_viewmodel_and_warns_once_witness:
  "DPrimitive \<notin> snd ` set [(''K'', DString ''label''), (''G'', DString ''title'')]
   \<and> distinct (map fst [(''K'', DString ''label''), (''G'', DString ''title'')])
   \<and> (\<exists>w'. Binder_applyAll 0 [Map.empty, [''K'' \<mapsto> VObs 0], [''K'' \<mapsto> VObs 1]]
               [(''K'', DString ''label''), (''G'', DString ''title'')] (fresh_world (VNum 5))
             = Inr w'
          \<and> calls w' = [(0, ''label'', VNum 5), (0, ''label'', VNum 5)]
          \<and> subscribers (heap w' 0) = [PushField 0 ''label'']
          \<and> subscribers (heap w' 1) = [PushField 0 ''label'']
          \<and> warnings (log w')
              = [''Could not find observable property on any viewmodels for '' @ quoted ''G'']
          \<and> count_list (warnings (log w'))
               (''Could not find observable property on any viewmodels for '' @ quoted ''K'') = 0
          \<and> count_list (warnings (log w'))
               (''Could not find observable property on any viewmodels for '' @ quoted ''G'') = 1)"
proof -
  let ?bs = "[(''K'', DString ''label''), (''G'', DString ''title'')]"
  let ?vms = "[Map.empty, [''K'' \<mapsto> VObs 0], [''K'' \<mapsto> VObs 1]] :: viewmodel list"
  let ?msg = "\<lambda>K. ''Could not find observable property on any viewmodels for '' @ quoted K"
  have h1: "DPrimitive \<notin> snd ` set ?bs" by simp
  have h2: "distinct (map fst ?bs)" by simp
  have rK: "resolves_on ?vms ''K''" and rG: "\<not> resolves_on ?vms ''G''"
    by (simp_all add: resolves_on_def property_def)
  from applyAll_binds_every_viewmodel_and_warns_once [OF h1, of 0 ?vms "fresh_world (VNum 5)"]
  obtain w' where
    r: "Binder_applyAll 0 ?vms ?bs (fresh_world (VNum 5)) = Inr w'"
    and cl: "calls w' = calls (fresh_world (VNum 5))
               @ concat (map (\<lambda>K. concat (map (\<lambda>vm. new_calls 0 vm ?bs K (fresh_world (VNum 5))) ?vms))
                   (map fst ?bs))"
    and sb: "\<forall>a. subscribers (heap w' a)
                 = subscribers (heap (fresh_world (VNum 5)) a)
                   @ concat (map (\<lambda>K. concat (map (\<lambda>vm. new_subscribers 0 vm ?bs K a) ?vms))
                       (map fst ?bs))"
    and wn: "warnings (log w')
               = warnings (log (fresh_world (VNum 5)))
                 @ map ?msg (filter (\<lambda>K. \<not> resolves_on ?vms K) (map fst ?bs))"
    and cnt: "distinct (map fst ?bs) \<longrightarrow>
                (\<forall>K\<in>set (map fst ?bs).
                   count_list (warnings (log w')) (?msg K)
                   = count_list (warnings (log (fresh_world (VNum 5)))) (?msg K)
                     + (if resolves_on ?vms K then 0 else 1))"
    by blast
  from cl have cl': "calls w' = [(0, ''label'', VNum 5), (0, ''label'', VNum 5)]"
    by (simp add: new_calls_def property_def descriptor_at_def fresh_world_def obs_get_def)
  from sb have "subscribers (heap w' 0)
                 = subscribers (heap (fresh_world (VNum 5)) 0)
                   @ concat (map (\<lambda>K. concat (map (\<lambda>vm. new_subscribers 0 vm ?bs K 0) ?vms))
                       (map fst ?bs))" by blast
  then have s0: "subscribers (heap w' 0) = [PushField 0 ''label'']"
    by (simp add: new_subscribers_def property_def descriptor_at_def fresh_world_def)
  from sb have "subscribers (heap w' 1)
                 = subscribers (heap (fresh_world (VNum 5)) 1)
                   @ concat (map (\<lambda>K. concat (map (\<lambda>vm. new_subscribers 0 vm ?bs K 1) ?vms))
                       (map fst ?bs))" by blast
  then have s1: "subscribers (heap w' 1) = [PushField 0 ''label'']"
    by (simp add: new_subscribers_def property_def descriptor_at_def fresh_world_def)
  from wn rK rG have wn': "warnings (log w') = [?msg ''G'']"
    by (simp add: fresh_world_def)
  from cnt h2 rK have cK: "count_list (warnings (log w')) (?msg ''K'') = 0"
    by (simp add: fresh_world_def)
  from cnt h2 rG have cG: "count_list (warnings (log w')) (?msg ''G'') = 1"
    by (simp add: fresh_world_def)
  from h1 h2 r cl' s0 s1 wn' cK cG show ?thesis by blast
qed

section \<open>A binding touches its own observable only\<close>

lemma in_new_subscribers:
  "PushField c f \<in> set (new_subscribers c' vm bs k b)
     \<longleftrightarrow> c = c' \<and> property vm k = VObs b \<and> target_of (descriptor_at bs k) = Some f"
proof (cases "property vm k = VObs b")
  case False
  then show ?thesis by (simp add: new_subscribers_def)
next
  case True
  show ?thesis
  proof (cases "target_of (descriptor_at bs k)")
    case None
    with True show ?thesis by (simp add: new_subscribers_def)
  next
    case (Some g)
    with True show ?thesis by (simp add: new_subscribers_def) blast
  qed
qed

lemma Binder_apply_subscribers_iff:
  assumes "Binder_apply c vm bs w = Inr w'"
  shows "PushField c f \<in> set (subscribers (heap w' b))
           \<longleftrightarrow> PushField c f \<in> set (subscribers (heap w b))
               \<or> (\<exists>k\<in>set (map fst bs). property vm k = VObs b
                      \<and> target_of (descriptor_at bs k) = Some f)"
  using apply_keys_subscribers [of c vm bs "map fst bs" w w' b] assms
  by (auto simp: Binder_apply_def in_new_subscribers)

text \<open>
  C6 (amended). A key \<open>K\<close> with the string descriptor \<open>F\<close> on the observable \<open>a\<close>, and
  another observable \<open>b\<close>: the binding made for \<open>K\<close> leaves \<open>b\<close> as it was, so a \<^verbatim>\<open>set\<close>
  on \<open>b\<close> makes the calls it made before; and after \<^verbatim>\<open>Binder.apply\<close>, a \<^verbatim>\<open>set\<close> on \<open>b\<close>
  makes no \<^verbatim>\<open>setField\<close> call to \<open>F\<close>, provided \<open>b\<close> had no subscriber pushing to \<open>F\<close>
  before and no key of the bindings displays \<open>b\<close> in \<open>F\<close>.
\<close>

theorem to_target_binding_frame:
  assumes "K \<in> set (map fst bindings)"
    and "descriptor_at bindings K = DString F"
    and "property viewmodel K = VObs a"
    and "Binder_apply context viewmodel bindings w = Inr w'"
    and "b \<noteq> a"
  shows "(\<forall>w0. \<exists>w1. applyBinding context viewmodel bindings K w0 = Inr (True, w1)
                 \<and> heap w1 b = heap w0 b
                 \<and> (\<forall>v. set_calls b v w1 = set_calls b v w0))
         \<and> (PushField context F \<notin> set (subscribers (heap w b))
              \<and> (\<forall>k\<in>set (map fst bindings).
                    property viewmodel k = VObs b
                    \<longrightarrow> target_of (descriptor_at bindings k) \<noteq> Some F)
             \<longrightarrow> (\<forall>later v x. (context, F, x) \<notin> set (set_calls b v (run_sets later w'))))"
proof (intro conjI allI impI)
  fix w0
  let ?w1 = "log_debug (''Binding created: '' @ quoted K @ '' -> '' @ quoted F)
               (obs_subscribe a (PushField context F) (setField context F (obs_get a w0) w0))"
  have "applyBinding context viewmodel bindings K w0 = Inr (True, ?w1)"
    by (rule applyBinding_to_target [OF assms(3) assms(2)])
  moreover have "heap ?w1 b = heap w0 b" using assms(5) by simp
  moreover have "\<forall>v. set_calls b v ?w1 = set_calls b v w0"
    using assms(5) by (simp add: set_calls_eq)
  ultimately show "\<exists>w1. applyBinding context viewmodel bindings K w0 = Inr (True, w1)
                 \<and> heap w1 b = heap w0 b
                 \<and> (\<forall>v. set_calls b v w1 = set_calls b v w0)"
    by blast
next
  fix later v x
  assume h: "PushField context F \<notin> set (subscribers (heap w b))
              \<and> (\<forall>k\<in>set (map fst bindings).
                    property viewmodel k = VObs b
                    \<longrightarrow> target_of (descriptor_at bindings k) \<noteq> Some F)"
  with Binder_apply_subscribers_iff [OF assms(4), of F b]
  have "PushField context F \<notin> set (subscribers (heap w' b))" by blast
  then show "(context, F, x) \<notin> set (set_calls b v (run_sets later w'))"
    by (simp add: set_calls_eq in_push_calls)
qed

theorem to_target_binding_frame_witness:
  "''first'' \<in> set (map fst [(''first'', DString ''label''), (''second'', DString ''title'')])
   \<and> descriptor_at [(''first'', DString ''label''), (''second'', DString ''title'')] ''first''
       = DString ''label''
   \<and> property shared_viewmodel ''first'' = VObs 0
   \<and> (1::nat) \<noteq> 0
   \<and> PushField 0 ''label'' \<notin> set (subscribers (heap (fresh_world (VNum 0)) 1))
   \<and> (\<exists>w'. Binder_apply 0 shared_viewmodel
               [(''first'', DString ''label''), (''second'', DString ''title'')]
               (fresh_world (VNum 0)) = Inr w'
          \<and> set_calls 1 (VNum 3) w' = [(0, ''title'', VNum 3)]
          \<and> (0, ''label'', VNum 3) \<notin> set (set_calls 1 (VNum 3) w'))"
proof -
  let ?bs = "[(''first'', DString ''label''), (''second'', DString ''title'')]"
  let ?w = "fresh_world (VNum 0)"
  have h1: "''first'' \<in> set (map fst ?bs)" by simp
  have h2: "descriptor_at ?bs ''first'' = DString ''label''" by (simp add: descriptor_at_def)
  have h3: "property shared_viewmodel ''first'' = VObs 0"
    by (simp add: shared_viewmodel_def property_def)
  obtain w' where h4: "Binder_apply 0 shared_viewmodel ?bs ?w = Inr w'"
    by (simp add: Binder_apply_def applyBinding_def shared_viewmodel_def property_def
        descriptor_at_def Let_def)
  have h5: "(1::nat) \<noteq> 0" by simp
  have h6: "PushField 0 ''label'' \<notin> set (subscribers (heap ?w 1))
            \<and> (\<forall>k\<in>set (map fst ?bs). property shared_viewmodel k = VObs 1
                   \<longrightarrow> target_of (descriptor_at ?bs k) \<noteq> Some ''label'')"
    by (simp add: fresh_world_def shared_viewmodel_def property_def descriptor_at_def)
  from to_target_binding_frame [OF h1 h2 h3 h4 h5] h6
  have "\<forall>later v x. (0, ''label'', x) \<notin> set (set_calls 1 v (run_sets later w'))" by blast
  then have "(0, ''label'', VNum 3) \<notin> set (set_calls 1 (VNum 3) (run_sets [] w'))" by blast
  then have a: "(0, ''label'', VNum 3) \<notin> set (set_calls 1 (VNum 3) w')" by simp
  have b: "set_calls 1 (VNum 3) w' = [(0, ''title'', VNum 3)]"
    using h4
    by (auto simp: Binder_apply_def applyBinding_def shared_viewmodel_def property_def
        descriptor_at_def Let_def set_calls_eq fresh_world_def)
  from h1 h2 h3 h4 h5 h6 a b show ?thesis by blast
qed

text \<open>
  The proviso of C6 is needed. Two keys may name the same view field: then a \<^verbatim>\<open>set\<close> on the
  second key's observable, which is not the one bound at the first key, calls
  \<^verbatim>\<open>setField\<close> on the field of the first key's binding.
\<close>

theorem shared_field_counterexample:
  "descriptor_at shared_bindings ''first'' = DString ''label''
   \<and> property shared_viewmodel ''first'' = VObs 0
   \<and> \<not> isl (Binder_apply 0 shared_viewmodel shared_bindings (fresh_world (VNum 0)))
   \<and> (1::nat) \<noteq> 0
   \<and> set_calls 1 (VNum 3)
        (projr (Binder_apply 0 shared_viewmodel shared_bindings (fresh_world (VNum 0))))
       = [(0, ''label'', VNum 3)]"
  by (simp add: shared_bindings_def shared_viewmodel_def descriptor_at_def property_def
      Binder_apply_def applyBinding_def Let_def set_calls_eq fresh_world_def)

section \<open>Component: properties\<close>

text \<open>
  C8. In a component with no window, \<^verbatim>\<open>active\<close> fails with the error of \<^verbatim>\<open>getWidget\<close>,
  whatever the toggle. After \<^verbatim>\<open>bind\<close> to a window that has the widget the description
  names, \<^verbatim>\<open>active(true)\<close> returns, and the widget of the window is the result of
  \<^verbatim>\<open>refreshWidget\<close> on the widget with \<^verbatim>\<open>isDisabled\<close> set to \<^verbatim>\<open>false\<close>.
\<close>

theorem active_requires_bound_host:
  "(window this = None \<longrightarrow>
      active refreshWidget toggle this host = Inl (Error ''The window is gone.''))
   \<and> (host win (name (description this)) = Some wd \<longrightarrow>
      (\<exists>host1 host2.
         bind refreshWidget win this host = Inr (this\<lparr>window := Some win\<rparr>, host1)
         \<and> active refreshWidget True (this\<lparr>window := Some win\<rparr>) host1
             = Inr (this\<lparr>window := Some win\<rparr>, host2)
         \<and> host2 win (name (description this))
             = Some (refreshWidget ((refreshWidget wd)\<lparr>isDisabled := False\<rparr>))))"
proof (intro conjI impI)
  assume "window this = None"
  then show "active refreshWidget toggle this host = Inl (Error ''The window is gone.'')"
    by (simp add: active_def getWidget_def)
next
  assume present: "host win (name (description this)) = Some wd"
  let ?nm = "name (description this)"
  let ?this1 = "this\<lparr>window := Some win\<rparr>"
  let ?host1 = "host(win := (host win)(?nm \<mapsto> refreshWidget wd))"
  let ?wd2 = "refreshWidget ((refreshWidget wd)\<lparr>isDisabled := False\<rparr>)"
  let ?host2 = "?host1(win := (?host1 win)(?nm \<mapsto> ?wd2))"
  have g0: "getWidget ?this1 host = Inr (win, ?nm)"
    using present by (simp add: getWidget_def findWidget_def)
  have b: "bind refreshWidget win this host = Inr (?this1, ?host1)"
    using g0 present by (simp add: bind_def refresh_def update_widget_def)
  have g1: "getWidget ?this1 ?host1 = Inr (win, ?nm)"
    by (simp add: getWidget_def findWidget_def)
  have a: "active refreshWidget True ?this1 ?host1 = Inr (?this1, ?host2)"
    using g1 by (simp add: active_def update_widget_def Let_def)
  have "?host2 win ?nm = Some ?wd2" by simp
  with a b show "\<exists>host1 host2.
         bind refreshWidget win this host = Inr (this\<lparr>window := Some win\<rparr>, host1)
         \<and> active refreshWidget True (this\<lparr>window := Some win\<rparr>) host1
             = Inr (this\<lparr>window := Some win\<rparr>, host2)
         \<and> host2 win (name (description this))
             = Some (refreshWidget ((refreshWidget wd)\<lparr>isDisabled := False\<rparr>))"
    by blast
qed

theorem active_requires_bound_host_witness:
  "window (Component_new \<lparr>name = ''button''\<rparr>) = None
   \<and> ((\<lambda>w. Map.empty)(0 := [''button'' \<mapsto> \<lparr>isDisabled = True\<rparr>])) 0
        (name (description (Component_new \<lparr>name = ''button''\<rparr>)))
       = Some \<lparr>isDisabled = True\<rparr>
   \<and> active (\<lambda>wd. wd) True (Component_new \<lparr>name = ''button''\<rparr>)
        ((\<lambda>w. Map.empty)(0 := [''button'' \<mapsto> \<lparr>isDisabled = True\<rparr>]))
       = Inl (Error ''The window is gone.'')
   \<and> (\<exists>host1 host2.
         bind (\<lambda>wd. wd) 0 (Component_new \<lparr>name = ''button''\<rparr>)
           ((\<lambda>w. Map.empty)(0 := [''button'' \<mapsto> \<lparr>isDisabled = True\<rparr>]))
          = Inr ((Component_new \<lparr>name = ''button''\<rparr>)\<lparr>window := Some 0\<rparr>, host1)
         \<and> active (\<lambda>wd. wd) True ((Component_new \<lparr>name = ''button''\<rparr>)\<lparr>window := Some 0\<rparr>) host1
             = Inr ((Component_new \<lparr>name = ''button''\<rparr>)\<lparr>window := Some 0\<rparr>, host2)
         \<and> host2 0 ''button'' = Some \<lparr>isDisabled = False\<rparr>)"
proof -
  let ?c = "Component_new \<lparr>name = ''button''\<rparr>"
  let ?host = "(\<lambda>w. Map.empty)(0 := [''button'' \<mapsto> \<lparr>isDisabled = True\<rparr>])
                 :: unit hostWindows"
  have h1: "window ?c = None" by (simp add: Component_new_def)
  have h2: "?host 0 (name (description ?c)) = Some \<lparr>isDisabled = True\<rparr>"
    by (simp add: Component_new_def)
  from active_requires_bound_host
         [of ?c "\<lambda>wd. wd" True ?host 0 "\<lparr>isDisabled = True\<rparr>"] h1 h2
  show ?thesis by (simp add: Component_new_def)
qed

end
